theory Spec2Isabelle
  imports Main
begin

section \<open>Text, character classes and the pattern language\<close>

text \<open>
  Python text is modelled as \<open>string\<close>: a list of characters with code points 0 to 255.
  On that range the classes below are the ones Python 3's \<open>re\<close> module (Unicode mode) and
  \<open>str.strip\<close> use: \<open>\s\<close> and \<open>strip()\<close> share one whitespace set, \<open>\d\<close> is the
  decimal digits, \<open>\w\<close> is every alphanumeric code point and the underscore.
\<close>

definition is_space :: "char \<Rightarrow> bool" where
  "is_space c =
     (let n = (of_char c :: nat)
      in (9 \<le> n \<and> n \<le> 13) \<or> (28 \<le> n \<and> n \<le> 32) \<or> n = 133 \<or> n = 160)"

definition is_digit :: "char \<Rightarrow> bool" where
  "is_digit c = (let n = (of_char c :: nat) in 48 \<le> n \<and> n \<le> 57)"

definition is_word :: "char \<Rightarrow> bool" where
  "is_word c =
     (let n = (of_char c :: nat)
      in (48 \<le> n \<and> n \<le> 57) \<or> (65 \<le> n \<and> n \<le> 90) \<or> n = 95 \<or> (97 \<le> n \<and> n \<le> 122)
         \<or> n = 170 \<or> n = 178 \<or> n = 179 \<or> n = 181 \<or> n = 185 \<or> n = 186
         \<or> (188 \<le> n \<and> n \<le> 190) \<or> (192 \<le> n \<and> n \<le> 214)
         \<or> (216 \<le> n \<and> n \<le> 246) \<or> (248 \<le> n \<and> n \<le> 255))"

definition to_lower :: "char \<Rightarrow> char" where
  "to_lower c =
     (let n = (of_char c :: nat) in if 65 \<le> n \<and> n \<le> 90 then char_of (n + 32) else c)"

definition to_upper :: "char \<Rightarrow> char" where
  "to_upper c =
     (let n = (of_char c :: nat) in if 97 \<le> n \<and> n \<le> 122 then char_of (n - 32) else c)"

text \<open>\<open>s.strip()\<close>, and \<open>s.rstrip(chars)\<close> for a set of characters.\<close>

definition strip :: "string \<Rightarrow> string" where
  "strip s = rev (dropWhile is_space (rev (dropWhile is_space s)))"

definition rstrip_chars :: "string \<Rightarrow> string \<Rightarrow> string" where
  "rstrip_chars cs s = rev (dropWhile (\<lambda>c. c \<in> set cs) (rev s))"

text \<open>
  The fragment of the \<open>re\<close> pattern syntax the repository uses. Every pattern is compiled
  with \<open>re.IGNORECASE\<close>, so a literal matches both cases of a letter; the dot does not
  match a newline (no \<open>re.DOTALL\<close>). Repetition only ever applies to a single character
  class in the source (\<open>\s+\<close>, \<open>\d+\<close>, \<open>\w+\<close>, \<open>\s*\<close>, \<open>[^>]*\<close>, \<open>.*\<close>, \<open>.*?\<close>), and
  the callers only ask whether a match exists, so greedy and lazy repetition coincide.
\<close>

datatype cclass =
    CLit char
  | CSpace
  | CDigit
  | CWord
  | CDot
  | CSet string
  | CNotSet string

fun cmatch :: "cclass \<Rightarrow> char \<Rightarrow> bool" where
  "cmatch (CLit p) c = (to_lower c = to_lower p)"
| "cmatch CSpace c = is_space c"
| "cmatch CDigit c = is_digit c"
| "cmatch CWord c = is_word c"
| "cmatch CDot c = (c \<noteq> CHR 0x0A)"
| "cmatch (CSet ps) c = (to_lower c \<in> to_lower ` set ps)"
| "cmatch (CNotSet ps) c = (to_lower c \<notin> to_lower ` set ps)"

datatype regex =
    Eps
  | One cclass
  | Many cclass
  | Bnd
  | Seq regex regex
  | Alt regex regex

text \<open>
  A position in the subject is the pair of "the character before is a word character"
  (false at the start of the text) and the text still to read. \<open>many\<close> lists the
  positions after zero or more characters of a class; \<open>rx r p\<close> lists the positions at
  which a match of \<open>r\<close> that starts at \<open>p\<close> can end.
\<close>

type_synonym pos = "bool \<times> string"

fun many :: "cclass \<Rightarrow> bool \<Rightarrow> string \<Rightarrow> pos list" where
  "many cc w [] = [(w, [])]"
| "many cc w (c # cs) = (w, c # cs) # (if cmatch cc c then many cc (is_word c) cs else [])"

definition at_boundary :: "pos \<Rightarrow> bool" where
  "at_boundary p = (fst p \<noteq> (case snd p of [] \<Rightarrow> False | c # _ \<Rightarrow> is_word c))"

primrec rx :: "regex \<Rightarrow> pos \<Rightarrow> pos list" where
  "rx Eps = (\<lambda>p. [p])"
| "rx (One cc) = (\<lambda>p. case snd p of [] \<Rightarrow> []
                         | c # cs \<Rightarrow> if cmatch cc c then [(is_word c, cs)] else [])"
| "rx (Many cc) = (\<lambda>p. many cc (fst p) (snd p))"
| "rx Bnd = (\<lambda>p. if at_boundary p then [p] else [])"
| "rx (Seq a b) = (\<lambda>p. concat (map (rx b) (rx a p)))"
| "rx (Alt a b) = (\<lambda>p. rx a p @ rx b p)"

text \<open>\<open>re.search(pattern, s, re.IGNORECASE)\<close> is truthy when a match starts somewhere.\<close>

fun search_from :: "regex \<Rightarrow> bool \<Rightarrow> string \<Rightarrow> bool" where
  "search_from r w [] = (rx r (w, []) \<noteq> [])"
| "search_from r w (c # cs) = (rx r (w, c # cs) \<noteq> [] \<or> search_from r (is_word c) cs)"

definition re_search :: "regex \<Rightarrow> string \<Rightarrow> bool" where
  "re_search r s = search_from r False s"

text \<open>Building blocks: a literal string, one or more of a class, a sequence, alternatives.\<close>

fun lit :: "string \<Rightarrow> regex" where
  "lit [] = Eps"
| "lit (c # cs) = Seq (One (CLit c)) (lit cs)"

definition many1 :: "cclass \<Rightarrow> regex" where
  "many1 cc = Seq (One cc) (Many cc)"

fun seq :: "regex list \<Rightarrow> regex" where
  "seq [] = Eps"
| "seq (r # rs) = Seq r (seq rs)"

fun alt_of :: "regex \<Rightarrow> regex list \<Rightarrow> regex" where
  "alt_of r [] = r"
| "alt_of r (x # xs) = Alt r (alt_of x xs)"

text \<open>
  Vocabulary for statements about matches: \<open>wafter w xs\<close> is the word flag after reading
  \<open>xs\<close> from a position whose flag is \<open>w\<close>; \<open>ci_eq\<close> is equality up to the case of
  ASCII letters; \<open>is_letter\<close> is the ASCII letters.
\<close>

definition wafter :: "bool \<Rightarrow> string \<Rightarrow> bool" where
  "wafter w xs = (if xs = [] then w else is_word (last xs))"

definition ci_eq :: "string \<Rightarrow> string \<Rightarrow> bool" where
  "ci_eq a b = (map to_lower a = map to_lower b)"

definition is_letter :: "char \<Rightarrow> bool" where
  "is_letter c =
     (let n = (of_char c :: nat) in (65 \<le> n \<and> n \<le> 90) \<or> (97 \<le> n \<and> n \<le> 122))"

section \<open>Python exceptions\<close>

text \<open>
  A call that may raise returns \<open>exn + 'a\<close>, \<open>Inl\<close> the exception. Every constructor is a
  subclass of Python's \<open>Exception\<close>. \<open>Jwt_InvalidTokenError\<close> stands for
  \<open>jwt.InvalidTokenError\<close> and its subclasses other than \<open>jwt.ExpiredSignatureError\<close>
  (a bad signature, a malformed token, a wrong algorithm).
\<close>

datatype exn =
    Psycopg2_Error string
  | Jwt_ExpiredSignatureError
  | Jwt_InvalidTokenError string
  | KeyError string
  | Other_Exception string

section \<open>utils.py\<close>

subsection \<open>\<open>validate_input\<close>: the check the chat endpoint applies\<close>

text \<open>
  The four patterns, in the source's order:
  \<^verbatim>\<open><script[^>]*>.*?</script>\<close>, \<^verbatim>\<open>javascript:\<close>, \<^verbatim>\<open>vbscript:\<close>, \<^verbatim>\<open>on\w+\s*=\<close>.
\<close>

definition dangerous_patterns :: "regex list" where
  "dangerous_patterns =
     [seq [lit ''<script'', Many (CNotSet ''>''), lit ''>'', Many CDot, lit ''</script>''],
      lit ''javascript:'',
      lit ''vbscript:'',
      seq [lit ''on'', many1 CWord, Many CSpace, lit ''='']]"

definition validate_input :: "string \<Rightarrow> bool" where
  "validate_input user_input =
     (if user_input = [] then False
      else let cleaned_input = strip user_input
           in if length cleaned_input = 0 \<or> length cleaned_input > 1000 then False
              else \<not> list_ex (\<lambda>pattern. re_search pattern cleaned_input) dangerous_patterns)"

subsection \<open>\<open>_is_select_statement\<close>\<close>

text \<open>
  A \<open>sqlparse\<close> token carries its type, a path such as \<open>('Text', 'Whitespace')\<close>, and
  its text. A parsed statement is given by the tokens \<open>statement.flatten()\<close> yields. The
  loop skips a token whose type equals one of the three listed types (a subtype such as
  \<open>Whitespace.Newline\<close> is a different tuple and is not skipped). \<open>value.upper()\<close> is
  compared with \<open>'SELECT'\<close>; on code points below 256 the comparison holds exactly
  when mapping the ASCII letters to upper case gives \<open>SELECT\<close>.
\<close>

record token =
  ttype :: "string list"
  tvalue :: string

definition T_Whitespace :: "string list" where
  "T_Whitespace = [''Text'', ''Whitespace'']"

definition T_Newline :: "string list" where
  "T_Newline = [''Text'', ''Whitespace'', ''Newline'']"

definition T_Comment_Single :: "string list" where
  "T_Comment_Single = [''Comment'', ''Single'']"

definition T_Comment_Multiline :: "string list" where
  "T_Comment_Multiline = [''Comment'', ''Multiline'']"

definition T_Keyword :: "string list" where
  "T_Keyword = [''Keyword'']"

definition T_DML :: "string list" where
  "T_DML = [''Keyword'', ''DML'']"

definition T_Integer :: "string list" where
  "T_Integer = [''Literal'', ''Number'', ''Integer'']"

definition T_Punctuation :: "string list" where
  "T_Punctuation = [''Punctuation'']"

definition is_select_statement :: "token list \<Rightarrow> bool" where
  "is_select_statement statement =
     (case List.find
             (\<lambda>t. ttype t \<notin> set [T_Whitespace, T_Comment_Single, T_Comment_Multiline])
             statement of
        None \<Rightarrow> False
      | Some first_token \<Rightarrow> map to_upper (tvalue first_token) = ''SELECT'')"

subsection \<open>\<open>_contains_dangerous_keywords\<close>\<close>

text \<open>The 24 patterns \<^verbatim>\<open>\bKEYWORD\b\<close>, in the source's order.\<close>

definition dangerous_keywords :: "string list" where
  "dangerous_keywords =
     [''INSERT'', ''UPDATE'', ''DELETE'', ''DROP'',
      ''CREATE'', ''ALTER'', ''TRUNCATE'', ''EXEC'',
      ''EXECUTE'', ''CALL'', ''MERGE'', ''GRANT'',
      ''REVOKE'', ''COMMIT'', ''ROLLBACK'', ''SAVEPOINT'',
      ''LOCK'', ''UNLOCK'', ''SET'', ''RESET'',
      ''SHOW'', ''DESCRIBE'', ''EXPLAIN'', ''ANALYZE'']"

definition keyword_pattern :: "string \<Rightarrow> regex" where
  "keyword_pattern k = seq [Bnd, lit k, Bnd]"

definition contains_dangerous_keywords :: "string \<Rightarrow> bool" where
  "contains_dangerous_keywords sql_query =
     list_ex (\<lambda>keyword. re_search (keyword_pattern keyword) sql_query) dangerous_keywords"

subsection \<open>\<open>_ensure_limit_clause\<close>\<close>

text \<open>The pattern \<^verbatim>\<open>\bLIMIT\s+\d+\<close>.\<close>

definition limit_pattern :: regex where
  "limit_pattern = seq [Bnd, lit ''LIMIT'', many1 CSpace, many1 CDigit]"

definition ensure_limit_clause :: "string \<Rightarrow> string" where
  "ensure_limit_clause sql_query =
     (if re_search limit_pattern sql_query then sql_query
      else rstrip_chars '';'' sql_query @ '' LIMIT 100'')"

subsection \<open>\<open>sanitize_sql\<close>\<close>

text \<open>
  \<open>sqlparse\<close> is a library outside the repository, so its two entry points are
  parameters: \<open>parse\<close> stands for \<open>sqlparse.parse\<close> (the statements of the text, each by
  its flattened tokens) and \<open>format\<close> for \<open>sqlparse.format\<close> with the options the source
  passes. Either may raise; the \<open>except Exception\<close> of \<open>sanitize_sql\<close> turns that into
  \<open>None\<close>. Only \<open>parsed[0]\<close> is classified; the keyword scan and the formatter read the
  whole text.
\<close>

definition sanitize_sql ::
  "(string \<Rightarrow> exn + token list list) \<Rightarrow> (string \<Rightarrow> exn + string) \<Rightarrow> string \<Rightarrow> string option"
where
  "sanitize_sql parse format sql_query =
     (if sql_query = [] then None
      else case parse sql_query of
             Inl e \<Rightarrow> None
           | Inr parsed \<Rightarrow>
               (case parsed of
                  [] \<Rightarrow> None
                | statement # _ \<Rightarrow>
                    if \<not> is_select_statement statement then None
                    else if contains_dangerous_keywords sql_query then None
                    else (case format sql_query of
                            Inl e \<Rightarrow> None
                          | Inr formatted_sql \<Rightarrow>
                              Some (strip (ensure_limit_clause formatted_sql)))))"

section \<open>security.py: \<open>SecurityManager\<close>\<close>

subsection \<open>\<open>validate_input\<close>: the input threat scanner\<close>

text \<open>
  The SQL-injection patterns, in the source's order:
  \<^verbatim>\<open>(\b(?:union|select|insert|update|delete|drop|create|alter|exec|execute)\b)\<close>,
  \<^verbatim>\<open>(--|\#|\/\*|\*\/)\<close>,
  \<^verbatim>\<open>(\b(?:or|and)\s+\d+\s*=\s*\d+)\<close>,
  \<^verbatim>\<open>(\b(?:or|and)\s+[\'"].*[\'"])\<close>,
  \<^verbatim>\<open>(;|\|\||&&)\<close>.
  Character 0x27 is the single quote and 0x22 the double quote.
\<close>

definition sql_injection_patterns :: "regex list" where
  "sql_injection_patterns =
     [seq [Bnd,
           alt_of (lit ''union'')
             [lit ''select'', lit ''insert'', lit ''update'', lit ''delete'', lit ''drop'',
              lit ''create'', lit ''alter'', lit ''exec'', lit ''execute''],
           Bnd],
      alt_of (lit ''--'') [lit ''#'', lit ''/*'', lit ''*/''],
      seq [Bnd, Alt (lit ''or'') (lit ''and''), many1 CSpace, many1 CDigit, Many CSpace,
           lit ''='', Many CSpace, many1 CDigit],
      seq [Bnd, Alt (lit ''or'') (lit ''and''), many1 CSpace, One (CSet [CHR 0x27, CHR 0x22]),
           Many CDot, One (CSet [CHR 0x27, CHR 0x22])],
      alt_of (lit '';'') [lit ''||'', lit ''&&'']]"

text \<open>
  The XSS patterns:
  \<^verbatim>\<open><\s*script[^>]*>.*?<\s*/\s*script\s*>\<close>, \<^verbatim>\<open>javascript\s*:\<close>, \<^verbatim>\<open>on\w+\s*=\<close>,
  \<^verbatim>\<open><\s*iframe[^>]*>\<close>, \<^verbatim>\<open><\s*object[^>]*>\<close>, \<^verbatim>\<open><\s*embed[^>]*>\<close>.
\<close>

definition xss_patterns :: "regex list" where
  "xss_patterns =
     [seq [lit ''<'', Many CSpace, lit ''script'', Many (CNotSet ''>''), lit ''>'', Many CDot,
           lit ''<'', Many CSpace, lit ''/'', Many CSpace, lit ''script'', Many CSpace, lit ''>''],
      seq [lit ''javascript'', Many CSpace, lit '':''],
      seq [lit ''on'', many1 CWord, Many CSpace, lit ''=''],
      seq [lit ''<'', Many CSpace, lit ''iframe'', Many (CNotSet ''>''), lit ''>''],
      seq [lit ''<'', Many CSpace, lit ''object'', Many (CNotSet ''>''), lit ''>''],
      seq [lit ''<'', Many CSpace, lit ''embed'', Many (CNotSet ''>''), lit ''>'']]"

text \<open>The decimal text of an integer, as an f-string renders it.\<close>

fun str_nat :: "nat \<Rightarrow> string" where
  "str_nat n = (if n < 10 then [char_of (48 + n)]
                else str_nat (n div 10) @ [char_of (48 + n mod 10)])"

definition str_int :: "int \<Rightarrow> string" where
  "str_int i = (if i < 0 then CHR ''-'' # str_nat (nat (- i)) else str_nat (nat i))"

record validation_result =
  valid :: bool
  sanitized :: string
  warnings :: "string list"

definition length_warning :: "int \<Rightarrow> string" where
  "length_warning max_length =
     ''Input exceeds maximum length of '' @ str_int max_length @ '' characters''"

text \<open>
  The length check returns at once. Each of the two pattern loops leaves only itself at
  its first match (\<open>break\<close>), so the XSS loop runs whatever the SQL-injection loop found.
  The substitution \<^verbatim>\<open>re.sub(r'[<>"\']', '', ...)\<close> deletes four characters. Logging is
  left out.
\<close>

definition SecurityManager_validate_input :: "string \<Rightarrow> int \<Rightarrow> validation_result" where
  "SecurityManager_validate_input input_text max_length =
     (let result = \<lparr>valid = True, sanitized = strip input_text, warnings = []\<rparr>
      in if int (length input_text) > max_length
         then result\<lparr>valid := False, warnings := warnings result @ [length_warning max_length]\<rparr>
         else
           let result =
                 (if list_ex (\<lambda>pattern. re_search pattern input_text) sql_injection_patterns
                  then result\<lparr>valid := False,
                              warnings := warnings result @ [''Potential SQL injection detected'']\<rparr>
                  else result);
               result =
                 (if list_ex (\<lambda>pattern. re_search pattern input_text) xss_patterns
                  then result\<lparr>valid := False,
                              warnings := warnings result @ [''Potential XSS attack detected'']\<rparr>
                  else result)
           in if valid result
              then result\<lparr>sanitized :=
                     filter (\<lambda>c. c \<notin> set [CHR ''<'', CHR ''>'', CHR 0x22, CHR 0x27])
                       (strip input_text)\<rparr>
              else result)"

subsection \<open>\<open>validate_session_token\<close>\<close>

text \<open>
  \<open>jwt.decode\<close> (with the manager's secret and the algorithm list of the source) and
  \<open>datetime.fromtimestamp\<close> are library calls, so they are parameters; \<open>now\<close> is the
  clock reading \<open>datetime.now(timezone.utc)\<close>. A decoded payload maps claim names to
  values. The two \<open>except\<close> clauses catch the library's token errors and nothing else:
  a missing \<open>exp\<close> claim (\<open>KeyError\<close>) or a failing conversion leaves the function as
  an exception.
\<close>

definition validate_session_token ::
  "(string \<Rightarrow> exn + (string \<rightharpoonup> 'v)) \<Rightarrow> ('v \<Rightarrow> exn + 't::linorder) \<Rightarrow> 't \<Rightarrow> string
     \<Rightarrow> exn + (string \<rightharpoonup> 'v) option"
where
  "validate_session_token decode fromtimestamp now tok =
     (let body =
            (case decode tok of
               Inl e \<Rightarrow> Inl e
             | Inr payload \<Rightarrow>
                 (case payload ''exp'' of
                    None \<Rightarrow> Inl (KeyError ''exp'')
                  | Some v \<Rightarrow>
                      (case fromtimestamp v of
                         Inl e \<Rightarrow> Inl e
                       | Inr expiry \<Rightarrow> if now > expiry then Inr None else Inr (Some payload))))
      in case body of
           Inl Jwt_ExpiredSignatureError \<Rightarrow> Inr None
         | Inl (Jwt_InvalidTokenError m) \<Rightarrow> Inr None
         | r \<Rightarrow> r)"

section \<open>app.py\<close>

text \<open>
  The start of the \<open>chat\<close> handler, up to the call of the translator: the message is
  trimmed and checked with \<open>validate_input\<close> of \<open>utils.py\<close>; a rejected message is answered
  with status 400, an accepted one is what \<open>natural_language_to_sql\<close> receives.
\<close>

datatype chat_step = Rejected_400 | To_Translator string

definition chat_input_check :: "string \<Rightarrow> chat_step" where
  "chat_input_check message =
     (let user_message = strip message
      in if \<not> validate_input user_message then Rejected_400 else To_Translator user_message)"

section \<open>database.py: \<open>DatabaseManager\<close>\<close>

text \<open>
  A driver call reads and changes the state of the driver and the pool and either
  returns or raises.
\<close>

type_synonym ('a, 's) io = "'s \<Rightarrow> (exn + 'a) \<times> 's"

definition ret :: "'a \<Rightarrow> ('a, 's) io" where
  "ret x = (\<lambda>s. (Inr x, s))"

definition throw :: "exn \<Rightarrow> ('a, 's) io" where
  "throw e = (\<lambda>s. (Inl e, s))"

definition io_bind :: "('a, 's) io \<Rightarrow> ('a \<Rightarrow> ('b, 's) io) \<Rightarrow> ('b, 's) io" where
  "io_bind m f = (\<lambda>s. case m s of (Inl e, s') \<Rightarrow> (Inl e, s') | (Inr x, s') \<Rightarrow> f x s')"

text \<open>\<open>try: m except Exception as e: h e\<close> and \<open>try: m finally: c\<close>.\<close>

definition try_except :: "('a, 's) io \<Rightarrow> (exn \<Rightarrow> ('a, 's) io) \<Rightarrow> ('a, 's) io" where
  "try_except m h = (\<lambda>s. case m s of (Inl e, s') \<Rightarrow> h e s' | (Inr x, s') \<Rightarrow> (Inr x, s'))"

definition try_finally :: "('a, 's) io \<Rightarrow> (unit, 's) io \<Rightarrow> ('a, 's) io" where
  "try_finally m c =
     (\<lambda>s. case m s of
             (r, s') \<Rightarrow> (case c s' of (Inl e, s'') \<Rightarrow> (Inl e, s'') | (Inr _, s'') \<Rightarrow> (r, s'')))"

text \<open>
  The calls of \<open>psycopg2\<close> the manager makes. \<open>pool_getconn\<close> gives \<open>None\<close> for a falsy
  result; \<open>cursor_description\<close> gives the column names, or \<open>None\<close> when the cursor has no
  result set.
\<close>

record ('s, 'p, 'v) driver =
  pool_getconn :: "(nat option, 's) io"
  pool_putconn :: "nat \<Rightarrow> (unit, 's) io"
  conn_rollback :: "nat \<Rightarrow> (unit, 's) io"
  conn_cursor :: "nat \<Rightarrow> (nat, 's) io"
  cursor_execute :: "nat \<Rightarrow> string \<Rightarrow> 'p list option \<Rightarrow> (unit, 's) io"
  cursor_fetchall :: "nat \<Rightarrow> ('v list list, 's) io"
  cursor_description :: "nat \<Rightarrow> (string list option, 's) io"
  cursor_close :: "nat \<Rightarrow> (unit, 's) io"

text \<open>
  The context manager \<open>get_connection\<close> around a body: an exception of the body (or the
  failure to get a connection) is re-raised, after a rollback when there is a connection;
  the connection goes back to the pool on every path.
\<close>

definition get_connection ::
  "('s, 'p, 'v) driver \<Rightarrow> (nat \<Rightarrow> ('a, 's) io) \<Rightarrow> ('a, 's) io" where
  "get_connection d body =
     io_bind (pool_getconn d)
       (\<lambda>connection.
          case connection of
            None \<Rightarrow> throw (Other_Exception ''Failed to get connection from pool'')
          | Some c \<Rightarrow>
              try_finally
                (try_except (body c) (\<lambda>e. io_bind (conn_rollback d c) (\<lambda>_. throw e)))
                (pool_putconn d c))"

text \<open>\<open>with conn.cursor() as cursor\<close>: the cursor is closed when the block is left.\<close>

definition with_cursor ::
  "('s, 'p, 'v) driver \<Rightarrow> nat \<Rightarrow> (nat \<Rightarrow> ('a, 's) io) \<Rightarrow> ('a, 's) io" where
  "with_cursor d c body =
     io_bind (conn_cursor d c) (\<lambda>cur. try_finally (body cur) (cursor_close d cur))"

text \<open>
  \<open>dict(zip(column_names, row))\<close>: a dictionary keeps the place of a key's first
  insertion and the value of its last.
\<close>

fun dict_set :: "'k \<Rightarrow> 'v \<Rightarrow> ('k \<times> 'v) list \<Rightarrow> ('k \<times> 'v) list" where
  "dict_set k v [] = [(k, v)]"
| "dict_set k v (p # ps) = (if fst p = k then (k, v) # ps else p # dict_set k v ps)"

definition dict_zip :: "'k list \<Rightarrow> 'v list \<Rightarrow> ('k \<times> 'v) list" where
  "dict_zip ks vs = foldl (\<lambda>d kv. dict_set (fst kv) (snd kv) d) [] (zip ks vs)"

definition timeout_statement :: string where
  "timeout_statement = ''SET statement_timeout = '' @ [CHR 0x27] @ ''30s'' @ [CHR 0x27]"

text \<open>
  The body of the \<open>try\<close> of \<open>execute_query\<close>. \<open>if params\<close> is false for \<open>None\<close> and for
  the empty tuple. Iterating over a \<open>description\<close> that is \<open>None\<close> raises \<open>TypeError\<close>.
\<close>

definition execute_query_body ::
  "('s, 'p, 'v) driver \<Rightarrow> string \<Rightarrow> 'p list option \<Rightarrow> ((string \<times> 'v) list list option, 's) io"
where
  "execute_query_body d query params =
     get_connection d (\<lambda>conn.
       with_cursor d conn (\<lambda>cur.
         io_bind (cursor_execute d cur timeout_statement None) (\<lambda>_.
         io_bind (if params \<noteq> None \<and> params \<noteq> Some []
                  then cursor_execute d cur query params
                  else cursor_execute d cur query None) (\<lambda>_.
         io_bind (cursor_fetchall d cur) (\<lambda>results.
         io_bind (cursor_description d cur) (\<lambda>description.
         io_bind (case description of
                    None \<Rightarrow> throw (Other_Exception ''TypeError'')
                  | Some column_names \<Rightarrow> ret column_names) (\<lambda>column_names.
         ret (Some (map (dict_zip column_names) results)))))))))"

text \<open>
  \<open>except psycopg2.Error\<close> and \<open>except Exception\<close> both return \<open>None\<close>. The result is
  \<open>Inr None\<close> for Python's \<open>None\<close>, \<open>Inr (Some rows)\<close> for a list of rows, and \<open>Inl e\<close>
  for an exception that leaves \<open>execute_query\<close>.
\<close>

definition execute_query ::
  "('s, 'p, 'v) driver \<Rightarrow> string \<Rightarrow> 'p list option \<Rightarrow> ((string \<times> 'v) list list option, 's) io"
where
  "execute_query d query params =
     try_except (execute_query_body d query params)
       (\<lambda>e. case e of Psycopg2_Error m \<Rightarrow> ret None | _ \<Rightarrow> ret None)"

section \<open>The properties in the specification's words\<close>

text \<open>
  "Contains, as a whole word matched case-insensitively": an occurrence of the keyword,
  up to the case of its letters, that is neither preceded nor followed by a word
  character. \<open>deny_list\<close> is the list of 24 keywords as the specification gives it.
\<close>

definition whole_word :: "string \<Rightarrow> string \<Rightarrow> bool" where
  "whole_word k s =
     (\<exists>pre mid post.
        s = pre @ mid @ post \<and> ci_eq mid k
        \<and> (pre = [] \<or> \<not> is_word (last pre))
        \<and> (post = [] \<or> \<not> is_word (hd post)))"

definition deny_list :: "string list" where
  "deny_list =
     [''INSERT'', ''UPDATE'', ''DELETE'', ''MERGE'', ''CREATE'', ''ALTER'', ''DROP'',
      ''TRUNCATE'', ''EXEC'', ''EXECUTE'', ''CALL'', ''GRANT'', ''REVOKE'', ''COMMIT'',
      ''ROLLBACK'', ''SAVEPOINT'', ''LOCK'', ''UNLOCK'', ''SET'', ''RESET'', ''SHOW'',
      ''DESCRIBE'', ''EXPLAIN'', ''ANALYZE'']"

text \<open>
  "Contains a \<open>LIMIT <n>\<close> clause (case-insensitive)": the word \<open>LIMIT\<close>, not preceded by
  a word character, then whitespace, then digits. \<open>limit_clause_value s n\<close> says that such
  a clause of \<open>s\<close> has the number \<open>n\<close> (all the digits that follow are read).
\<close>

definition has_limit_clause :: "string \<Rightarrow> bool" where
  "has_limit_clause s =
     (\<exists>pre kw ws ds post.
        s = pre @ kw @ ws @ ds @ post
        \<and> (pre = [] \<or> \<not> is_word (last pre))
        \<and> ci_eq kw ''LIMIT''
        \<and> ws \<noteq> [] \<and> (\<forall>c \<in> set ws. is_space c)
        \<and> ds \<noteq> [] \<and> (\<forall>c \<in> set ds. is_digit c))"

definition decimal :: "string \<Rightarrow> nat" where
  "decimal ds = foldl (\<lambda>a c. 10 * a + (of_char c - 48)) 0 ds"

definition limit_clause_value :: "string \<Rightarrow> nat \<Rightarrow> bool" where
  "limit_clause_value s n =
     (\<exists>pre kw ws ds post.
        s = pre @ kw @ ws @ ds @ post
        \<and> (pre = [] \<or> \<not> is_word (last pre))
        \<and> ci_eq kw ''LIMIT''
        \<and> ws \<noteq> [] \<and> (\<forall>c \<in> set ws. is_space c)
        \<and> ds \<noteq> [] \<and> (\<forall>c \<in> set ds. is_digit c)
        \<and> (post = [] \<or> \<not> is_digit (hd post))
        \<and> decimal ds = n)"

text \<open>"Parses as a single statement classified SELECT."\<close>

definition parses_as_single_select :: "(string \<Rightarrow> exn + token list list) \<Rightarrow> string \<Rightarrow> bool" where
  "parses_as_single_select parse s =
     (case parse s of Inr [statement] \<Rightarrow> is_select_statement statement | _ \<Rightarrow> False)"

text \<open>
  The run of \<open>execute_query\<close> in which no driver call raises: the rows as dictionaries and
  the final state, or \<open>None\<close> when some call raises (or gives no connection or no
  description).
\<close>

definition returned :: "(exn + 'a) \<times> 's \<Rightarrow> ('a \<times> 's) option" where
  "returned r = (case r of (Inl e, s) \<Rightarrow> None | (Inr x, s) \<Rightarrow> Some (x, s))"

definition run_ok ::
  "('s, 'p, 'v) driver \<Rightarrow> string \<Rightarrow> 'p list option \<Rightarrow> 's \<Rightarrow> ((string \<times> 'v) list list \<times> 's) option"
where
  "run_ok d query params s =
     Option.bind (returned (pool_getconn d s)) (\<lambda>(connection, s1).
     Option.bind connection (\<lambda>c.
     Option.bind (returned (conn_cursor d c s1)) (\<lambda>(cur, s2).
     Option.bind (returned (cursor_execute d cur timeout_statement None s2)) (\<lambda>(_, s3).
     Option.bind (returned (cursor_execute d cur query
                     (if params = Some [] then None else params) s3)) (\<lambda>(_, s4).
     Option.bind (returned (cursor_fetchall d cur s4)) (\<lambda>(results, s5).
     Option.bind (returned (cursor_description d cur s5)) (\<lambda>(description, s6).
     Option.bind description (\<lambda>column_names.
     Option.bind (returned (cursor_close d cur s6)) (\<lambda>(_, s7).
     Option.bind (returned (pool_putconn d c s7)) (\<lambda>(_, s8).
     Some (map (dict_zip column_names) results, s8)))))))))))"

section \<open>Example inputs\<close>

text \<open>
  What \<open>sqlparse.parse\<close> and \<open>sqlparse.format\<close> return on three texts, written down as
  tables: the library splits a text at a top-level semicolon, lexes \<open>SELECT\<close> as
  \<open>Keyword.DML\<close>, and with \<open>reindent\<close> puts \<open>LIMIT\<close> on a line of its own and a blank line
  between statements.
\<close>

definition mk_token :: "string list \<Rightarrow> string \<Rightarrow> token" where
  "mk_token ty v = \<lparr>ttype = ty, tvalue = v\<rparr>"

definition example_parse :: "string \<Rightarrow> exn + token list list" where
  "example_parse q =
     (if q = ''SELECT 1'' then
        Inr [[mk_token T_DML ''SELECT'', mk_token T_Whitespace '' '', mk_token T_Integer ''1'']]
      else if q = ''SELECT 1 LIMIT 10000'' then
        Inr [[mk_token T_DML ''SELECT'', mk_token T_Whitespace '' '', mk_token T_Integer ''1'',
              mk_token T_Whitespace '' '', mk_token T_Keyword ''LIMIT'',
              mk_token T_Whitespace '' '', mk_token T_Integer ''10000'']]
      else if q = ''SELECT 1; SELECT 2'' then
        Inr [[mk_token T_DML ''SELECT'', mk_token T_Whitespace '' '', mk_token T_Integer ''1'',
              mk_token T_Punctuation '';'', mk_token T_Whitespace '' ''],
             [mk_token T_DML ''SELECT'', mk_token T_Whitespace '' '', mk_token T_Integer ''2'']]
      else Inl (Other_Exception ''not tabulated''))"

definition example_format :: "string \<Rightarrow> exn + string" where
  "example_format q =
     (if q = ''SELECT 1'' then Inr ''SELECT 1''
      else if q = ''SELECT 1 LIMIT 10000'' then Inr (''SELECT 1'' @ [CHR 0x0A] @ ''LIMIT 10000'')
      else if q = ''SELECT 1; SELECT 2'' then Inr (''SELECT 1;'' @ [CHR 0x0A, CHR 0x0A] @ ''SELECT 2'')
      else Inl (Other_Exception ''not tabulated''))"

text \<open>
  A token library for the examples: \<open>good\<close> decodes to a payload that expires at 200,
  \<open>forged\<close> fails the signature check, every other token is malformed. Times are integers
  and every claim value converts.
\<close>

definition example_decode :: "string \<Rightarrow> exn + (string \<rightharpoonup> int)" where
  "example_decode tok =
     (if tok = ''good'' then Inr [''user_id'' \<mapsto> 7, ''iat'' \<mapsto> 100, ''exp'' \<mapsto> 200]
      else if tok = ''forged'' then Inl (Jwt_InvalidTokenError ''Signature verification failed'')
      else Inl (Jwt_InvalidTokenError ''Not enough segments''))"

definition example_fromtimestamp :: "int \<Rightarrow> exn + int" where
  "example_fromtimestamp v = Inr v"

text \<open>
  A driver for the examples. Its state is the list of queries run so far. Every call
  succeeds, except that running the text \<open>boom\<close> raises a driver error; a query yields
  no rows and one column \<open>n\<close>.
\<close>

definition example_driver :: "(string list, nat, int) driver" where
  "example_driver =
     \<lparr>pool_getconn = ret (Some 0),
      pool_putconn = (\<lambda>c. ret ()),
      conn_rollback = (\<lambda>c. ret ()),
      conn_cursor = (\<lambda>c. ret 0),
      cursor_execute = (\<lambda>cur q ps. if q = ''boom'' then throw (Psycopg2_Error ''syntax error'')
                                      else (\<lambda>s. (Inr (), s @ [q]))),
      cursor_fetchall = (\<lambda>cur. ret []),
      cursor_description = (\<lambda>cur. ret (Some [''n''])),
      cursor_close = (\<lambda>cur. ret ())\<rparr>"

section \<open>Facts about the pattern language\<close>

lemma wafter_Nil [simp]: "wafter w [] = w"
  by (simp add: wafter_def)

lemma wafter_Cons [simp]: "wafter w (c # xs) = wafter (is_word c) xs"
  by (simp add: wafter_def)

lemma wafter_append [simp]: "wafter w (xs @ ys) = wafter (wafter w xs) ys"
  by (induction xs arbitrary: w) simp_all

lemma wafter_False_iff: "\<not> wafter False pre \<longleftrightarrow> (pre = [] \<or> \<not> is_word (last pre))"
  by (auto simp: wafter_def)

text \<open>A search succeeds exactly when the pattern matches at some split of the text.\<close>

lemma search_from_iff:
  "search_from r w s \<longleftrightarrow> (\<exists>pre post. s = pre @ post \<and> rx r (wafter w pre, post) \<noteq> [])"
proof (induction s arbitrary: w)
  case Nil
  then show ?case by simp
next
  case (Cons c cs)
  show ?case
  proof
    assume "search_from r w (c # cs)"
    then consider "rx r (w, c # cs) \<noteq> []" | "search_from r (is_word c) cs" by auto
    then show "\<exists>pre post. c # cs = pre @ post \<and> rx r (wafter w pre, post) \<noteq> []"
    proof cases
      case 1
      then have "c # cs = [] @ (c # cs) \<and> rx r (wafter w [], c # cs) \<noteq> []" by simp
      then show ?thesis by blast
    next
      case 2
      then obtain pre post where "cs = pre @ post" "rx r (wafter (is_word c) pre, post) \<noteq> []"
        using Cons.IH by blast
      then have "c # cs = (c # pre) @ post \<and> rx r (wafter w (c # pre), post) \<noteq> []" by simp
      then show ?thesis by blast
    qed
  next
    assume "\<exists>pre post. c # cs = pre @ post \<and> rx r (wafter w pre, post) \<noteq> []"
    then obtain pre post where h: "c # cs = pre @ post" "rx r (wafter w pre, post) \<noteq> []" by blast
    show "search_from r w (c # cs)"
    proof (cases pre)
      case Nil
      with h have "rx r (w, c # cs) \<noteq> []" by simp
      then show ?thesis by simp
    next
      case (Cons d pre')
      with h have "cs = pre' @ post" "rx r (wafter (is_word c) pre', post) \<noteq> []" by auto
      then have "search_from r (is_word c) cs" using Cons.IH by blast
      then show ?thesis by simp
    qed
  qed
qed

lemma re_search_iff:
  "re_search r s \<longleftrightarrow> (\<exists>pre post. s = pre @ post \<and> rx r (wafter False pre, post) \<noteq> [])"
  by (simp add: re_search_def search_from_iff)

lemma rx_nonempty_iff: "rx r p \<noteq> [] \<longleftrightarrow> (\<exists>q. q \<in> set (rx r p))"
  by (cases "rx r p") auto

lemma in_rx_Eps: "q \<in> set (rx Eps p) \<longleftrightarrow> q = p"
  by auto

lemma in_rx_Seq: "q \<in> set (rx (Seq a b) p) \<longleftrightarrow> (\<exists>m. m \<in> set (rx a p) \<and> q \<in> set (rx b m))"
  by auto

lemma in_rx_Alt: "q \<in> set (rx (Alt a b) p) \<longleftrightarrow> q \<in> set (rx a p) \<or> q \<in> set (rx b p)"
  by auto

lemma in_rx_Bnd: "q \<in> set (rx Bnd p) \<longleftrightarrow> q = p \<and> at_boundary p"
  by auto

lemma in_rx_One:
  "q \<in> set (rx (One cc) (w, s)) \<longleftrightarrow> (\<exists>c cs. s = c # cs \<and> cmatch cc c \<and> q = (is_word c, cs))"
  by (cases s) auto

lemma in_many:
  "(w', s') \<in> set (many cc w s) \<longleftrightarrow>
     (\<exists>xs. s = xs @ s' \<and> (\<forall>c \<in> set xs. cmatch cc c) \<and> w' = wafter w xs)"
proof (induction s arbitrary: w)
  case Nil
  then show ?case by auto
next
  case (Cons c cs)
  show ?case
  proof
    assume "(w', s') \<in> set (many cc w (c # cs))"
    then consider "(w', s') = (w, c # cs)"
      | "cmatch cc c" "(w', s') \<in> set (many cc (is_word c) cs)"
      by (auto split: if_splits)
    then show "\<exists>xs. c # cs = xs @ s' \<and> (\<forall>c \<in> set xs. cmatch cc c) \<and> w' = wafter w xs"
    proof cases
      case 1
      then have "c # cs = [] @ s' \<and> (\<forall>c \<in> set []. cmatch cc c) \<and> w' = wafter w []" by simp
      then show ?thesis by blast
    next
      case 2
      then obtain xs where "cs = xs @ s'" "\<forall>c \<in> set xs. cmatch cc c" "w' = wafter (is_word c) xs"
        using Cons.IH by blast
      with 2 have "c # cs = (c # xs) @ s' \<and> (\<forall>d \<in> set (c # xs). cmatch cc d) \<and> w' = wafter w (c # xs)"
        by simp
      then show ?thesis by blast
    qed
  next
    assume "\<exists>xs. c # cs = xs @ s' \<and> (\<forall>c \<in> set xs. cmatch cc c) \<and> w' = wafter w xs"
    then obtain xs where h: "c # cs = xs @ s'" "\<forall>c \<in> set xs. cmatch cc c" "w' = wafter w xs" by blast
    show "(w', s') \<in> set (many cc w (c # cs))"
    proof (cases xs)
      case Nil
      with h have "(w', s') = (w, c # cs)" by simp
      then show ?thesis by simp
    next
      case (Cons d xs')
      with h have "cs = xs' @ s'" "\<forall>c \<in> set xs'. cmatch cc c" "w' = wafter (is_word c) xs'" "cmatch cc c"
        by auto
      then have "(w', s') \<in> set (many cc (is_word c) cs)" using Cons.IH by blast
      with \<open>cmatch cc c\<close> show ?thesis by simp
    qed
  qed
qed

lemma in_rx_Many:
  "q \<in> set (rx (Many cc) (w, s)) \<longleftrightarrow>
     (\<exists>xs. s = xs @ snd q \<and> (\<forall>c \<in> set xs. cmatch cc c) \<and> fst q = wafter w xs)"
  using in_many [of "fst q" "snd q" cc w s] by simp

lemma in_rx_many1:
  "q \<in> set (rx (many1 cc) (w, s)) \<longleftrightarrow>
     (\<exists>xs. xs \<noteq> [] \<and> s = xs @ snd q \<and> (\<forall>c \<in> set xs. cmatch cc c) \<and> fst q = wafter w xs)"
proof
  assume "q \<in> set (rx (many1 cc) (w, s))"
  then obtain m where m: "m \<in> set (rx (One cc) (w, s))" "q \<in> set (rx (Many cc) m)"
    unfolding many1_def in_rx_Seq by blast
  from m(1) obtain c cs where c: "s = c # cs" "cmatch cc c" "m = (is_word c, cs)"
    unfolding in_rx_One by blast
  from m(2) c have "q \<in> set (rx (Many cc) (is_word c, cs))" by simp
  then obtain xs where xs: "cs = xs @ snd q" "\<forall>c \<in> set xs. cmatch cc c" "fst q = wafter (is_word c) xs"
    unfolding in_rx_Many by blast
  from c xs have "c # xs \<noteq> [] \<and> s = (c # xs) @ snd q \<and> (\<forall>d \<in> set (c # xs). cmatch cc d) \<and> fst q = wafter w (c # xs)"
    by simp
  then show "\<exists>xs. xs \<noteq> [] \<and> s = xs @ snd q \<and> (\<forall>c \<in> set xs. cmatch cc c) \<and> fst q = wafter w xs"
    by blast
next
  assume "\<exists>xs. xs \<noteq> [] \<and> s = xs @ snd q \<and> (\<forall>c \<in> set xs. cmatch cc c) \<and> fst q = wafter w xs"
  then obtain xs where h: "xs \<noteq> []" "s = xs @ snd q" "\<forall>c \<in> set xs. cmatch cc c" "fst q = wafter w xs"
    by blast
  then obtain c xs' where xs: "xs = c # xs'" by (cases xs) auto
  with h have 1: "(is_word c, xs' @ snd q) \<in> set (rx (One cc) (w, s))"
    unfolding in_rx_One by simp
  from h xs have 2: "q \<in> set (rx (Many cc) (is_word c, xs' @ snd q))"
    unfolding in_rx_Many by auto
  from 1 2 show "q \<in> set (rx (many1 cc) (w, s))"
    unfolding many1_def in_rx_Seq by blast
qed

lemma in_rx_lit:
  "q \<in> set (rx (lit k) (w, s)) \<longleftrightarrow>
     (\<exists>xs. s = xs @ snd q \<and> ci_eq xs k \<and> fst q = wafter w xs)"
proof (induction k arbitrary: w s)
  case Nil
  show ?case by (cases q) (auto simp: ci_eq_def)
next
  case (Cons c k)
  show ?case
  proof
    assume "q \<in> set (rx (lit (c # k)) (w, s))"
    then obtain m where m: "m \<in> set (rx (One (CLit c)) (w, s))" "q \<in> set (rx (lit k) m)"
      by auto
    from m(1) obtain d ds where d: "s = d # ds" "to_lower d = to_lower c" "m = (is_word d, ds)"
      unfolding in_rx_One by auto
    from m(2) d obtain xs where xs: "ds = xs @ snd q" "ci_eq xs k" "fst q = wafter (is_word d) xs"
      using Cons.IH by blast
    from d xs have "s = (d # xs) @ snd q \<and> ci_eq (d # xs) (c # k) \<and> fst q = wafter w (d # xs)"
      by (simp add: ci_eq_def)
    then show "\<exists>xs. s = xs @ snd q \<and> ci_eq xs (c # k) \<and> fst q = wafter w xs" by blast
  next
    assume "\<exists>xs. s = xs @ snd q \<and> ci_eq xs (c # k) \<and> fst q = wafter w xs"
    then obtain xs where h: "s = xs @ snd q" "ci_eq xs (c # k)" "fst q = wafter w xs" by blast
    then obtain d xs' where xs: "xs = d # xs'" by (cases xs) (auto simp: ci_eq_def)
    with h have d: "to_lower d = to_lower c" "ci_eq xs' k" by (auto simp: ci_eq_def)
    with h xs have 1: "(is_word d, xs' @ snd q) \<in> set (rx (One (CLit c)) (w, s))"
      unfolding in_rx_One by simp
    from h xs d have 2: "q \<in> set (rx (lit k) (is_word d, xs' @ snd q))"
      using Cons.IH by auto
    from 1 2 show "q \<in> set (rx (lit (c # k)) (w, s))" by auto
  qed
qed

text \<open>Letters, and what equality up to case preserves.\<close>

lemma of_char_to_lower:
  "(of_char (to_lower c) :: nat) =
     (if 65 \<le> (of_char c :: nat) \<and> (of_char c :: nat) \<le> 90 then of_char c + 32 else of_char c)"
  by (simp add: to_lower_def Let_def)

lemma to_lower_eq_cases:
  assumes "to_lower c = to_lower p"
  shows "c = p \<or> (is_letter c \<and> is_letter p)"
proof -
  define m :: nat where "m = of_char c"
  define n :: nat where "n = of_char p"
  from assms have "(of_char (to_lower c) :: nat) = of_char (to_lower p)" by simp
  then have "(if 65 \<le> m \<and> m \<le> 90 then m + 32 else m) = (if 65 \<le> n \<and> n \<le> 90 then n + 32 else n)"
    unfolding of_char_to_lower m_def n_def .
  then have "m = n \<or> (((65 \<le> m \<and> m \<le> 90) \<or> (97 \<le> m \<and> m \<le> 122)) \<and> ((65 \<le> n \<and> n \<le> 90) \<or> (97 \<le> n \<and> n \<le> 122)))"
    by (auto split: if_splits)
  then show ?thesis
    unfolding m_def n_def is_letter_def Let_def by simp
qed

lemma is_letter_is_word: "is_letter c \<Longrightarrow> is_word c"
  unfolding is_letter_def is_word_def Let_def by blast

lemma is_letter_not_space: "is_letter c \<Longrightarrow> \<not> is_space c"
  unfolding is_letter_def is_space_def Let_def by auto

lemma is_digit_not_space: "is_digit c \<Longrightarrow> \<not> is_space c"
  unfolding is_digit_def is_space_def Let_def by auto

lemma to_lower_is_word:
  assumes "to_lower c = to_lower p" shows "is_word c = is_word p"
  using to_lower_eq_cases [OF assms] is_letter_is_word by blast

lemma to_lower_is_letter:
  assumes "to_lower c = to_lower p" shows "is_letter c = is_letter p"
  using to_lower_eq_cases [OF assms] by blast

lemma ci_eq_Nil [simp]: "ci_eq xs [] \<longleftrightarrow> xs = []"
  by (simp add: ci_eq_def)

lemma ci_eq_refl [simp]: "ci_eq xs xs"
  by (simp add: ci_eq_def)

lemma ci_eq_ConsD:
  "ci_eq xs (p # ps) \<Longrightarrow> \<exists>c cs. xs = c # cs \<and> to_lower c = to_lower p \<and> ci_eq cs ps"
  by (cases xs) (auto simp: ci_eq_def)

lemma ci_eq_last:
  assumes "ci_eq xs ys" "ys \<noteq> []"
  shows "xs \<noteq> [] \<and> to_lower (last xs) = to_lower (last ys)"
proof -
  from assms have ne: "xs \<noteq> []" by (auto simp: ci_eq_def)
  from assms(1) have "last (map to_lower xs) = last (map to_lower ys)" by (simp add: ci_eq_def)
  with ne assms(2) show ?thesis by (simp add: last_map)
qed

section \<open>The limit enforcer\<close>

lemma limit_pattern_at:
  "rx limit_pattern (w, s) \<noteq> [] \<longleftrightarrow>
     (\<not> w \<and> (\<exists>kw ws ds post. s = kw @ ws @ ds @ post \<and> ci_eq kw ''LIMIT''
        \<and> ws \<noteq> [] \<and> (\<forall>c \<in> set ws. is_space c)
        \<and> ds \<noteq> [] \<and> (\<forall>c \<in> set ds. is_digit c)))"
proof
  assume "rx limit_pattern (w, s) \<noteq> []"
  then obtain q where "q \<in> set (rx limit_pattern (w, s))"
    unfolding rx_nonempty_iff by blast
  then obtain m0 m1 m2 m3 where
    0: "m0 \<in> set (rx Bnd (w, s))" and
    1: "m1 \<in> set (rx (lit ''LIMIT'') m0)" and
    2: "m2 \<in> set (rx (many1 CSpace) m1)" and
    3: "m3 \<in> set (rx (many1 CDigit) m2)"
    unfolding limit_pattern_def seq.simps in_rx_Seq by blast
  from 0 have b: "at_boundary (w, s)" and m0: "m0 = (w, s)"
    unfolding in_rx_Bnd by simp_all
  from 1 have "m1 \<in> set (rx (lit ''LIMIT'') (w, s))" unfolding m0 .
  then obtain kw where kw: "s = kw @ snd m1" "ci_eq kw ''LIMIT''"
    unfolding in_rx_lit by blast
  from 2 obtain ws where ws: "ws \<noteq> []" "snd m1 = ws @ snd m2" "\<forall>c \<in> set ws. cmatch CSpace c"
    using in_rx_many1 [of m2 CSpace "fst m1" "snd m1"] by auto
  from 3 obtain ds where ds: "ds \<noteq> []" "snd m2 = ds @ snd m3" "\<forall>c \<in> set ds. cmatch CDigit c"
    using in_rx_many1 [of m3 CDigit "fst m2" "snd m2"] by auto
  from kw(2) obtain c kw' where c: "kw = c # kw'" "to_lower c = to_lower CHR ''L''"
    using ci_eq_ConsD by blast
  have "is_word CHR ''L''" by (simp add: is_word_def)
  with c have "is_word c" using to_lower_is_word [of c "CHR ''L''"] by simp
  with b kw(1) c have "\<not> w" by (simp add: at_boundary_def)
  moreover from kw ws ds have "s = kw @ ws @ ds @ snd m3 \<and> ci_eq kw ''LIMIT''
        \<and> ws \<noteq> [] \<and> (\<forall>c \<in> set ws. is_space c)
        \<and> ds \<noteq> [] \<and> (\<forall>c \<in> set ds. is_digit c)" by simp
  ultimately show "\<not> w \<and> (\<exists>kw ws ds post. s = kw @ ws @ ds @ post \<and> ci_eq kw ''LIMIT''
        \<and> ws \<noteq> [] \<and> (\<forall>c \<in> set ws. is_space c)
        \<and> ds \<noteq> [] \<and> (\<forall>c \<in> set ds. is_digit c))" by blast
next
  assume "\<not> w \<and> (\<exists>kw ws ds post. s = kw @ ws @ ds @ post \<and> ci_eq kw ''LIMIT''
        \<and> ws \<noteq> [] \<and> (\<forall>c \<in> set ws. is_space c)
        \<and> ds \<noteq> [] \<and> (\<forall>c \<in> set ds. is_digit c))"
  then obtain kw ws ds post where h: "\<not> w" "s = kw @ ws @ ds @ post" "ci_eq kw ''LIMIT''"
    "ws \<noteq> []" "\<forall>c \<in> set ws. is_space c" "ds \<noteq> []" "\<forall>c \<in> set ds. is_digit c" by blast
  from h(3) obtain c kw' where c: "kw = c # kw'" "to_lower c = to_lower CHR ''L''"
    using ci_eq_ConsD by blast
  have "is_word CHR ''L''" by (simp add: is_word_def)
  with c have "is_word c" using to_lower_is_word [of c "CHR ''L''"] by simp
  with h(1,2) c have b: "at_boundary (w, s)" by (simp add: at_boundary_def)
  define p1 where "p1 = (wafter w kw, ws @ ds @ post)"
  define p2 where "p2 = (wafter (fst p1) ws, ds @ post)"
  define p3 where "p3 = (wafter (fst p2) ds, post)"
  have 1: "p1 \<in> set (rx (lit ''LIMIT'') (w, s))"
    unfolding in_rx_lit p1_def using h by auto
  have 2: "p2 \<in> set (rx (many1 CSpace) p1)"
    using in_rx_many1 [of p2 CSpace "fst p1" "snd p1"] h unfolding p1_def p2_def by auto
  have 3: "p3 \<in> set (rx (many1 CDigit) p2)"
    using in_rx_many1 [of p3 CDigit "fst p2" "snd p2"] h unfolding p2_def p3_def by auto
  from 3 have 4: "p3 \<in> set (rx (seq [many1 CDigit]) p2)"
    by simp
  from 2 4 have 5: "p3 \<in> set (rx (seq [many1 CSpace, many1 CDigit]) p1)"
    unfolding seq.simps in_rx_Seq by blast
  from 1 5 have 6: "p3 \<in> set (rx (seq [lit ''LIMIT'', many1 CSpace, many1 CDigit]) (w, s))"
    unfolding seq.simps in_rx_Seq by blast
  from b have 7: "(w, s) \<in> set (rx Bnd (w, s))" by simp
  from 7 6 have "p3 \<in> set (rx limit_pattern (w, s))"
    unfolding limit_pattern_def seq.simps(2) [of Bnd] in_rx_Seq by blast
  then show "rx limit_pattern (w, s) \<noteq> []" by auto
qed

lemma has_limit_clauseI:
  "s = pre @ kw @ ws @ ds @ post \<Longrightarrow> pre = [] \<or> \<not> is_word (last pre) \<Longrightarrow>
   ci_eq kw ''LIMIT'' \<Longrightarrow> ws \<noteq> [] \<Longrightarrow> (\<forall>c \<in> set ws. is_space c) \<Longrightarrow>
   ds \<noteq> [] \<Longrightarrow> (\<forall>c \<in> set ds. is_digit c) \<Longrightarrow> has_limit_clause s"
  unfolding has_limit_clause_def by blast

lemma limit_search_iff: "re_search limit_pattern s \<longleftrightarrow> has_limit_clause s"
proof
  assume "re_search limit_pattern s"
  then obtain pre rest where p: "s = pre @ rest" "rx limit_pattern (wafter False pre, rest) \<noteq> []"
    unfolding re_search_iff by blast
  from p(2) obtain kw ws ds post where h: "\<not> wafter False pre" "rest = kw @ ws @ ds @ post"
    "ci_eq kw ''LIMIT''" "ws \<noteq> []" "\<forall>c \<in> set ws. is_space c" "ds \<noteq> []" "\<forall>c \<in> set ds. is_digit c"
    unfolding limit_pattern_at by blast
  from h(1) have "pre = [] \<or> \<not> is_word (last pre)" by (simp only: wafter_False_iff)
  with p(1) h show "has_limit_clause s" by (simp add: has_limit_clauseI)
next
  assume "has_limit_clause s"
  then obtain pre kw ws ds post where h: "s = pre @ kw @ ws @ ds @ post"
    "pre = [] \<or> \<not> is_word (last pre)"
    "ci_eq kw ''LIMIT''" "ws \<noteq> []" "\<forall>c \<in> set ws. is_space c" "ds \<noteq> []" "\<forall>c \<in> set ds. is_digit c"
    unfolding has_limit_clause_def by blast
  from h(2) have "\<not> wafter False pre" by (simp only: wafter_False_iff)
  with h have "rx limit_pattern (wafter False pre, kw @ ws @ ds @ post) \<noteq> []"
    unfolding limit_pattern_at by blast
  with h(1) show "re_search limit_pattern s"
    unfolding re_search_iff by blast
qed

lemma has_limit_appended: "has_limit_clause (x @ '' LIMIT 100'')"
  by (rule has_limit_clauseI [of _ "x @ '' ''" "''LIMIT''" "'' ''" "''100''" "[]"])
     (simp_all add: is_word_def is_space_def is_digit_def)

text \<open>
  Claim C5. A text that already contains a \<open>LIMIT <n>\<close> clause, in any case and with any
  number, is returned unchanged; any other text is returned with its trailing semicolons
  removed and \<open> LIMIT 100\<close> appended. "Contains a clause" is read as \<open>has_limit_clause\<close>,
  "trailing statement terminator" as the run of semicolons at the very end of the text,
  which is what \<open>rstrip(';')\<close> removes.
\<close>

theorem ensure_limit_clause_spec:
  "(has_limit_clause s \<longrightarrow> ensure_limit_clause s = s) \<and>
   (\<not> has_limit_clause s \<longrightarrow> ensure_limit_clause s = rstrip_chars '';'' s @ '' LIMIT 100'')"
  by (simp add: ensure_limit_clause_def limit_search_iff)

theorem ensure_limit_clause_spec_witness:
  "has_limit_clause ''select 1 limit 5000''
   \<and> ensure_limit_clause ''select 1 limit 5000'' = ''select 1 limit 5000''
   \<and> \<not> has_limit_clause ''select 1;''
   \<and> ensure_limit_clause ''select 1;'' = ''select 1 LIMIT 100''"
proof -
  have a: "re_search limit_pattern ''select 1 limit 5000''" by code_simp
  have b: "\<not> re_search limit_pattern ''select 1;''" by code_simp
  have r: "rstrip_chars '';'' ''select 1;'' = ''select 1''" by code_simp
  from a b have "has_limit_clause ''select 1 limit 5000''" "\<not> has_limit_clause ''select 1;''"
    by (simp_all add: limit_search_iff)
  with ensure_limit_clause_spec [of "''select 1 limit 5000''"]
       ensure_limit_clause_spec [of "''select 1;''"] r
  show ?thesis by simp
qed

text \<open>
  Claim C6. The limit enforcer is idempotent: applying it twice gives what applying it
  once gives, for every text.
\<close>

theorem ensure_limit_clause_idempotent:
  "ensure_limit_clause (ensure_limit_clause s) = ensure_limit_clause s"
  by (simp add: ensure_limit_clause_def limit_search_iff has_limit_appended)

theorem ensure_limit_clause_idempotent_witness:
  "ensure_limit_clause (ensure_limit_clause ''select 1;'') = ''select 1 LIMIT 100''"
proof -
  have "ensure_limit_clause ''select 1;'' = ''select 1 LIMIT 100''" by code_simp
  with ensure_limit_clause_idempotent [of "''select 1;''"] show ?thesis by simp
qed

section \<open>The keyword scanner\<close>

lemma keyword_pattern_at:
  assumes k: "k \<noteq> []" "is_letter (hd k)" "is_letter (last k)"
  shows "rx (keyword_pattern k) (w, s) \<noteq> [] \<longleftrightarrow>
     (\<not> w \<and> (\<exists>mid post. s = mid @ post \<and> ci_eq mid k \<and> (post = [] \<or> \<not> is_word (hd post))))"
proof -
  have first: "is_word (hd mid)" "mid \<noteq> []" "is_word (last mid)" if "ci_eq mid k" for mid
  proof -
    from k(1) obtain p ps where ps: "k = p # ps" by (cases k) auto
    with that obtain c cs where c: "mid = c # cs" "to_lower c = to_lower p"
      using ci_eq_ConsD by blast
    with ps k(2) have "is_letter c" using to_lower_is_letter [of c p] by simp
    with c show "is_word (hd mid)" "mid \<noteq> []" by (simp_all add: is_letter_is_word)
    from ci_eq_last [OF that k(1)] have "to_lower (last mid) = to_lower (last k)" by simp
    with k(3) have "is_letter (last mid)" using to_lower_is_letter [of "last mid" "last k"] by simp
    then show "is_word (last mid)" by (rule is_letter_is_word)
  qed
  have bnd_end: "at_boundary (wafter w mid, post) \<longleftrightarrow> (post = [] \<or> \<not> is_word (hd post))"
    if "ci_eq mid k" for mid post
    using first [OF that] by (cases post) (auto simp: at_boundary_def wafter_def)
  have bnd_start: "at_boundary (w, mid @ post) \<longleftrightarrow> \<not> w" if "ci_eq mid k" for mid post
    using first [OF that] by (cases mid) (auto simp: at_boundary_def)
  show ?thesis
  proof
    assume "rx (keyword_pattern k) (w, s) \<noteq> []"
    then obtain q where "q \<in> set (rx (keyword_pattern k) (w, s))"
      unfolding rx_nonempty_iff by blast
    then obtain m0 m1 m2 where
      0: "m0 \<in> set (rx Bnd (w, s))" and
      1: "m1 \<in> set (rx (lit k) m0)" and
      2: "m2 \<in> set (rx Bnd m1)"
      unfolding keyword_pattern_def seq.simps in_rx_Seq by blast
    from 0 have b: "at_boundary (w, s)" and m0: "m0 = (w, s)"
      unfolding in_rx_Bnd by simp_all
    from 1 have "m1 \<in> set (rx (lit k) (w, s))" unfolding m0 .
    then obtain mid where mid: "s = mid @ snd m1" "ci_eq mid k" "fst m1 = wafter w mid"
      unfolding in_rx_lit by blast
    from 2 have "at_boundary m1" unfolding in_rx_Bnd by simp
    with mid(3) have "at_boundary (wafter w mid, snd m1)" by (cases m1) simp
    with mid(2) have e: "snd m1 = [] \<or> \<not> is_word (hd (snd m1))" using bnd_end by blast
    from b mid have "\<not> w" using bnd_start by blast
    with mid e show "\<not> w \<and> (\<exists>mid post. s = mid @ post \<and> ci_eq mid k \<and> (post = [] \<or> \<not> is_word (hd post)))"
      by blast
  next
    assume "\<not> w \<and> (\<exists>mid post. s = mid @ post \<and> ci_eq mid k \<and> (post = [] \<or> \<not> is_word (hd post)))"
    then obtain mid post where h: "\<not> w" "s = mid @ post" "ci_eq mid k" "post = [] \<or> \<not> is_word (hd post)"
      by blast
    from h have 0: "(w, s) \<in> set (rx Bnd (w, s))" using bnd_start [of mid post] by simp
    from h have 1: "(wafter w mid, post) \<in> set (rx (lit k) (w, s))"
      unfolding in_rx_lit by auto
    from h have 2: "(wafter w mid, post) \<in> set (rx Bnd (wafter w mid, post))"
      using bnd_end [of mid post] by simp
    from 2 have 3: "(wafter w mid, post) \<in> set (rx (seq [Bnd]) (wafter w mid, post))" by simp
    from 1 3 have 4: "(wafter w mid, post) \<in> set (rx (seq [lit k, Bnd]) (w, s))"
      unfolding seq.simps(2) [of "lit k"] in_rx_Seq by blast
    from 0 4 have "(wafter w mid, post) \<in> set (rx (keyword_pattern k) (w, s))"
      unfolding keyword_pattern_def seq.simps(2) [of Bnd] in_rx_Seq by blast
    then show "rx (keyword_pattern k) (w, s) \<noteq> []" by auto
  qed
qed

lemma keyword_search_iff:
  assumes "k \<noteq> []" "is_letter (hd k)" "is_letter (last k)"
  shows "re_search (keyword_pattern k) s \<longleftrightarrow> whole_word k s"
proof
  assume "re_search (keyword_pattern k) s"
  then obtain pre rest where p: "s = pre @ rest" "rx (keyword_pattern k) (wafter False pre, rest) \<noteq> []"
    unfolding re_search_iff by blast
  from p(2) obtain mid post where h: "\<not> wafter False pre" "rest = mid @ post" "ci_eq mid k"
    "post = [] \<or> \<not> is_word (hd post)"
    unfolding keyword_pattern_at [OF assms] by blast
  from h(1) have "pre = [] \<or> \<not> is_word (last pre)" by (simp only: wafter_False_iff)
  with p(1) h show "whole_word k s" unfolding whole_word_def by blast
next
  assume "whole_word k s"
  then obtain pre mid post where h: "s = pre @ mid @ post" "ci_eq mid k"
    "pre = [] \<or> \<not> is_word (last pre)" "post = [] \<or> \<not> is_word (hd post)"
    unfolding whole_word_def by blast
  from h(3) have "\<not> wafter False pre" by (simp only: wafter_False_iff)
  with h have "rx (keyword_pattern k) (wafter False pre, mid @ post) \<noteq> []"
    unfolding keyword_pattern_at [OF assms] by blast
  with h(1) show "re_search (keyword_pattern k) s"
    unfolding re_search_iff by blast
qed

lemma dangerous_keywords_letters:
  "\<forall>k \<in> set dangerous_keywords. k \<noteq> [] \<and> is_letter (hd k) \<and> is_letter (last k)"
  by (simp add: dangerous_keywords_def is_letter_def)

lemma deny_list_subset: "\<forall>k \<in> set deny_list. k \<in> set dangerous_keywords"
  by (simp add: deny_list_def dangerous_keywords_def)

lemma dangerous_keywords_subset: "\<forall>k \<in> set dangerous_keywords. k \<in> set deny_list"
  by (simp add: deny_list_def dangerous_keywords_def)

lemma contains_dangerous_keywords_iff:
  "contains_dangerous_keywords s \<longleftrightarrow> (\<exists>k \<in> set deny_list. whole_word k s)"
proof
  assume "contains_dangerous_keywords s"
  then obtain k where k: "k \<in> set dangerous_keywords" "re_search (keyword_pattern k) s"
    unfolding contains_dangerous_keywords_def list_ex_iff by blast
  from k(1) have "k \<noteq> []" "is_letter (hd k)" "is_letter (last k)"
    using dangerous_keywords_letters by blast+
  with k(2) have "whole_word k s" by (simp add: keyword_search_iff)
  moreover from k(1) have "k \<in> set deny_list" using dangerous_keywords_subset by blast
  ultimately show "\<exists>k \<in> set deny_list. whole_word k s" by blast
next
  assume "\<exists>k \<in> set deny_list. whole_word k s"
  then obtain k where k: "k \<in> set deny_list" "whole_word k s" by blast
  from k(1) have m: "k \<in> set dangerous_keywords" using deny_list_subset by blast
  then have "k \<noteq> []" "is_letter (hd k)" "is_letter (last k)"
    using dangerous_keywords_letters by blast+
  with k(2) have "re_search (keyword_pattern k) s" by (simp add: keyword_search_iff)
  with m show "contains_dangerous_keywords s"
    unfolding contains_dangerous_keywords_def list_ex_iff by blast
qed

text \<open>
  Claim C3. The keyword scanner answers true exactly when the text contains one of the 24
  deny-listed keywords as a whole word, matched without regard to case; the identifier
  \<open>created_at\<close>, which only contains a keyword as a substring, does not match.
\<close>

theorem contains_dangerous_keywords_whole_word:
  "(contains_dangerous_keywords s \<longleftrightarrow> (\<exists>k \<in> set deny_list. whole_word k s))
   \<and> length deny_list = 24
   \<and> \<not> contains_dangerous_keywords ''created_at''"
proof -
  have "\<not> contains_dangerous_keywords ''created_at''" by code_simp
  moreover have "length deny_list = 24" by (simp add: deny_list_def)
  ultimately show ?thesis using contains_dangerous_keywords_iff by blast
qed

theorem contains_dangerous_keywords_witness:
  "contains_dangerous_keywords ''SELECT 1; drop table t''
   \<and> (\<exists>k \<in> set deny_list. whole_word k ''SELECT 1; drop table t'')"
proof -
  have c: "contains_dangerous_keywords ''SELECT 1; drop table t''" by code_simp
  with contains_dangerous_keywords_whole_word [of "''SELECT 1; drop table t''"]
  show ?thesis by blast
qed

section \<open>Trimming\<close>

lemma in_dropWhile: "x \<in> set xs \<Longrightarrow> \<not> P x \<Longrightarrow> x \<in> set (dropWhile P xs)"
  by (induction xs) auto

lemma strip_keeps: "c \<in> set s \<Longrightarrow> \<not> is_space c \<Longrightarrow> c \<in> set (strip s)"
  by (simp add: strip_def in_dropWhile)

lemma dropWhile_id: "xs = [] \<or> \<not> P (hd xs) \<Longrightarrow> dropWhile P xs = xs"
  by (cases xs) auto

lemma hd_dropWhile_not: "dropWhile P xs = [] \<or> \<not> P (hd (dropWhile P xs))"
  by (induction xs) auto

lemma hd_rev_dropWhile_rev:
  assumes "xs = [] \<or> \<not> P (hd xs)"
  shows "rev (dropWhile P (rev xs)) = [] \<or> \<not> P (hd (rev (dropWhile P (rev xs))))"
proof (cases xs)
  case Nil
  then show ?thesis by simp
next
  case (Cons x xs')
  with assms have nx: "\<not> P x" by simp
  have "dropWhile P (rev xs' @ [x]) = dropWhile P (rev xs') @ [x]"
    using nx by (simp add: dropWhile_append)
  then have "rev (dropWhile P (rev xs)) = x # rev (dropWhile P (rev xs'))"
    using Cons by simp
  with nx show ?thesis by simp
qed

lemma strip_idem: "strip (strip s) = strip s"
proof -
  define a where "a = dropWhile is_space s"
  define b where "b = rev (dropWhile is_space (rev a))"
  have a: "a = [] \<or> \<not> is_space (hd a)" unfolding a_def by (rule hd_dropWhile_not)
  then have b: "b = [] \<or> \<not> is_space (hd b)" unfolding b_def by (rule hd_rev_dropWhile_rev)
  then have 1: "dropWhile is_space b = b" by (rule dropWhile_id)
  have "rev b = dropWhile is_space (rev a)" unfolding b_def by simp
  then have "rev b = [] \<or> \<not> is_space (hd (rev b))" using hd_dropWhile_not [of is_space "rev a"] by simp
  then have 2: "dropWhile is_space (rev b) = rev b" by (rule dropWhile_id)
  have "strip s = b" unfolding strip_def a_def b_def ..
  moreover have "strip b = b" unfolding strip_def 1 2 by simp
  ultimately show ?thesis by simp
qed

section \<open>The input threat scanner\<close>

text \<open>
  Claim C10. When the scanner rejects an input, for length, SQL injection or XSS, the
  sanitized field is the trimmed input with nothing removed, so every angle bracket and
  quote of the input is still in it; the four characters are removed only from an input
  judged valid.
\<close>

theorem rejected_input_sanitized_is_trimmed:
  "(\<not> valid (SecurityManager_validate_input t n) \<longrightarrow>
      sanitized (SecurityManager_validate_input t n) = strip t
      \<and> (\<forall>c \<in> set [CHR ''<'', CHR ''>'', CHR 0x22, CHR 0x27].
            c \<in> set t \<longrightarrow> c \<in> set (sanitized (SecurityManager_validate_input t n))))
   \<and> (valid (SecurityManager_validate_input t n) \<longrightarrow>
      sanitized (SecurityManager_validate_input t n) =
        filter (\<lambda>c. c \<notin> set [CHR ''<'', CHR ''>'', CHR 0x22, CHR 0x27]) (strip t))"
proof -
  have ns: "\<forall>c \<in> set [CHR ''<'', CHR ''>'', CHR 0x22, CHR 0x27]. \<not> is_space c"
    by (simp add: is_space_def)
  have keep: "\<forall>c \<in> set [CHR ''<'', CHR ''>'', CHR 0x22, CHR 0x27]. c \<in> set t \<longrightarrow> c \<in> set (strip t)"
    using ns strip_keeps by blast
  have s: "\<not> valid (SecurityManager_validate_input t n) \<Longrightarrow>
      sanitized (SecurityManager_validate_input t n) = strip t"
    by (simp add: SecurityManager_validate_input_def Let_def split: if_splits)
  have v: "valid (SecurityManager_validate_input t n) \<Longrightarrow>
      sanitized (SecurityManager_validate_input t n) =
        filter (\<lambda>c. c \<notin> set [CHR ''<'', CHR ''>'', CHR 0x22, CHR 0x27]) (strip t)"
    by (simp add: SecurityManager_validate_input_def Let_def split: if_splits)
  from s v keep show ?thesis by metis
qed

theorem rejected_input_sanitized_witness:
  "\<not> valid (SecurityManager_validate_input '' <script>alert(1)</script>'' 1000)
   \<and> sanitized (SecurityManager_validate_input '' <script>alert(1)</script>'' 1000)
       = ''<script>alert(1)</script>''
   \<and> CHR ''<'' \<in> set (sanitized (SecurityManager_validate_input '' <script>alert(1)</script>'' 1000))
   \<and> valid (SecurityManager_validate_input ''a <b'' 1000)
   \<and> sanitized (SecurityManager_validate_input ''a <b'' 1000) = ''a b''"
proof -
  have a: "\<not> valid (SecurityManager_validate_input '' <script>alert(1)</script>'' 1000)"
    by code_simp
  have b: "strip '' <script>alert(1)</script>'' = ''<script>alert(1)</script>''" by code_simp
  have c: "valid (SecurityManager_validate_input ''a <b'' 1000)" by code_simp
  have d: "filter (\<lambda>c. c \<notin> set [CHR ''<'', CHR ''>'', CHR 0x22, CHR 0x27]) (strip ''a <b'') = ''a b''"
    by code_simp
  from rejected_input_sanitized_is_trimmed [of "'' <script>alert(1)</script>''" 1000]
       rejected_input_sanitized_is_trimmed [of "''a <b''" 1000] a b c d
  show ?thesis by simp
qed

text \<open>
  Claim C7, as amended. Only the length check stops the scan: an input over the length
  gets the length warning alone. For any other input both pattern checks run, the
  SQL-injection check first, each adding at most one warning; so there are at most two
  warnings, and the input is valid exactly when there is none.
\<close>

theorem validate_input_warnings:
  "warnings (SecurityManager_validate_input t n) =
     (if int (length t) > n then [length_warning n]
      else (if list_ex (\<lambda>p. re_search p t) sql_injection_patterns
            then [''Potential SQL injection detected''] else [])
           @ (if list_ex (\<lambda>p. re_search p t) xss_patterns
              then [''Potential XSS attack detected''] else []))
   \<and> length (warnings (SecurityManager_validate_input t n)) \<le> 2
   \<and> (valid (SecurityManager_validate_input t n)
        \<longleftrightarrow> warnings (SecurityManager_validate_input t n) = [])"
  by (simp add: SecurityManager_validate_input_def Let_def)

theorem validate_input_warnings_witness:
  "warnings (SecurityManager_validate_input ''abcdef'' 3)
     = [''Input exceeds maximum length of 3 characters'']
   \<and> warnings (SecurityManager_validate_input ''x or 1 = 1'' 1000)
     = [''Potential SQL injection detected'']
   \<and> \<not> valid (SecurityManager_validate_input ''x or 1 = 1'' 1000)
   \<and> valid (SecurityManager_validate_input ''total sales?'' 1000)"
proof -
  have a: "length_warning 3 = ''Input exceeds maximum length of 3 characters''" by code_simp
  have b: "list_ex (\<lambda>p. re_search p ''x or 1 = 1'') sql_injection_patterns" by code_simp
  have c: "\<not> list_ex (\<lambda>p. re_search p ''x or 1 = 1'') xss_patterns" by code_simp
  have d: "\<not> list_ex (\<lambda>p. re_search p ''total sales?'') sql_injection_patterns"
    by code_simp
  have e: "\<not> list_ex (\<lambda>p. re_search p ''total sales?'') xss_patterns"
    by code_simp
  from validate_input_warnings [of "''abcdef''" 3]
       validate_input_warnings [of "''x or 1 = 1''" 1000]
       validate_input_warnings [of "''total sales?''" 1000] a b c d e
  show ?thesis by simp
qed

text \<open>
  Against claim C7 as stated: an input that matches an SQL-injection pattern and an XSS
  pattern gets both warnings, so the XSS check ran after the SQL-injection check failed.
\<close>

theorem validate_input_two_warnings:
  "warnings (SecurityManager_validate_input ''onclick=1;'' 1000)
     = [''Potential SQL injection detected'', ''Potential XSS attack detected'']"
  by code_simp

section \<open>The chat endpoint's input check\<close>

text \<open>
  Claim C4, as amended. A chat message reaches the translator only after
  \<open>validate_input\<close> of \<open>utils.py\<close> has accepted it: what is passed on is the trimmed
  message, it is not empty, it has at most 1000 characters and it matches none of that
  function's four patterns. The input threat scanner is not on this path.
\<close>

theorem chat_check_passes_utils_check:
  "chat_input_check m = To_Translator u \<Longrightarrow>
     u = strip m \<and> u \<noteq> [] \<and> length u \<le> 1000
     \<and> (\<forall>p \<in> set dangerous_patterns. \<not> re_search p u)"
  by (auto simp: chat_input_check_def validate_input_def Let_def strip_idem list_ex_iff
           split: if_splits)

theorem chat_check_passes_utils_check_witness:
  "chat_input_check '' total sales? ''
     = To_Translator ''total sales?''
   \<and> \<not> list_ex (\<lambda>p. re_search p ''total sales?'') dangerous_patterns"
proof -
  have a: "chat_input_check '' total sales? ''
     = To_Translator ''total sales?''" by code_simp
  from chat_check_passes_utils_check [OF a]
  have "\<forall>p \<in> set dangerous_patterns. \<not> re_search p ''total sales?''"
    by blast
  with a show ?thesis unfolding list_ex_iff by blast
qed

text \<open>
  Against claim C4 as stated: the chat endpoint passes on a message that the input threat
  scanner rejects.
\<close>

theorem chat_check_accepts_what_scanner_rejects:
  "chat_input_check ''select all users'' = To_Translator ''select all users''
   \<and> \<not> valid (SecurityManager_validate_input ''select all users'' 1000)"
  by code_simp

section \<open>Session tokens\<close>

text \<open>
  Claim C8. Token validation returns the payload only if the library accepted the token
  and the expiry re-check against the clock passed. A token whose expiry lies in the past
  is answered \<open>None\<close> even when the library accepted it, and a token the library
  rejects (a bad signature, or expired by the library's own check) is answered \<open>None\<close>
  whatever expiry it claims.
\<close>

theorem validate_session_token_checks:
  "(validate_session_token decode fromtimestamp now tok = Inr (Some p) \<longrightarrow>
      decode tok = Inr p
      \<and> (\<exists>v expiry. p ''exp'' = Some v \<and> fromtimestamp v = Inr expiry \<and> \<not> now > expiry))
   \<and> (decode tok = Inr p \<and> p ''exp'' = Some v \<and> fromtimestamp v = Inr expiry \<and> now > expiry \<longrightarrow>
      validate_session_token decode fromtimestamp now tok = Inr None)
   \<and> (decode tok = Inl (Jwt_InvalidTokenError msg) \<longrightarrow>
      validate_session_token decode fromtimestamp now tok = Inr None)
   \<and> (decode tok = Inl Jwt_ExpiredSignatureError \<longrightarrow>
      validate_session_token decode fromtimestamp now tok = Inr None)"
  by (auto simp: validate_session_token_def Let_def
           split: sum.splits option.splits exn.splits if_splits)

theorem validate_session_token_checks_witness:
  "example_decode ''good'' = Inr [''user_id'' \<mapsto> 7, ''iat'' \<mapsto> 100, ''exp'' \<mapsto> 200]
   \<and> validate_session_token example_decode example_fromtimestamp 250 ''good'' = Inr None
   \<and> validate_session_token example_decode example_fromtimestamp 150 ''good''
       = Inr (Some [''user_id'' \<mapsto> 7, ''iat'' \<mapsto> 100, ''exp'' \<mapsto> 200])
   \<and> validate_session_token example_decode example_fromtimestamp 150 ''forged'' = Inr None"
proof -
  let ?p = "[''user_id'' \<mapsto> 7, ''iat'' \<mapsto> 100, ''exp'' \<mapsto> (200::int)]"
  have d: "example_decode ''good'' = Inr ?p" by (simp add: example_decode_def)
  have e: "?p ''exp'' = Some 200" by simp
  have f: "example_fromtimestamp 200 = Inr 200" by (simp add: example_fromtimestamp_def)
  have g: "example_decode ''forged'' = Inl (Jwt_InvalidTokenError ''Signature verification failed'')"
    by (simp add: example_decode_def)
  have 1: "validate_session_token example_decode example_fromtimestamp 250 ''good'' = Inr None"
    using validate_session_token_checks
            [of example_decode example_fromtimestamp 250 "''good''" ?p 200 200] d e f
    by simp
  have 2: "validate_session_token example_decode example_fromtimestamp 150 ''forged'' = Inr None"
    using validate_session_token_checks
            [of example_decode example_fromtimestamp 150 "''forged''" ?p 200 200
                "''Signature verification failed''"] g
    by simp
  have 3: "validate_session_token example_decode example_fromtimestamp 150 ''good'' = Inr (Some ?p)"
    using d e f by (simp add: validate_session_token_def)
  from d 1 2 3 show ?thesis by simp
qed

section \<open>Query execution\<close>

lemma ret_Inr: "ret x s = (Inr y, s') \<longleftrightarrow> y = x \<and> s' = s"
  by (auto simp: ret_def)

lemma throw_Inr: "throw e s \<noteq> (Inr y, s')"
  by (simp add: throw_def)

lemma io_bind_Inr:
  "io_bind m f s = (Inr y, s') \<longleftrightarrow> (\<exists>x s1. m s = (Inr x, s1) \<and> f x s1 = (Inr y, s'))"
  by (auto simp: io_bind_def split: prod.splits sum.splits)

lemma try_finally_Inr:
  "try_finally m c s = (Inr y, s') \<longleftrightarrow> (\<exists>s1. m s = (Inr y, s1) \<and> c s1 = (Inr (), s'))"
  by (auto simp: try_finally_def split: prod.splits sum.splits)

lemma try_except_reraise_Inr:
  "try_except m (\<lambda>e. io_bind r (\<lambda>_. throw e)) s = (Inr y, s') \<longleftrightarrow> m s = (Inr y, s')"
  by (auto simp: try_except_def io_bind_def throw_def split: prod.splits sum.splits)

lemma returned_eq_Some: "returned r = Some (x, s) \<longleftrightarrow> r = (Inr x, s)"
  by (auto simp: returned_def split: prod.splits sum.splits)

lemma params_choice:
  "(if ps \<noteq> None \<and> ps \<noteq> Some [] then ex q ps else ex q None)
     = ex q (if ps = Some [] then None else ps)"
  by auto

lemma description_Inr:
  "(case description of None \<Rightarrow> throw (Other_Exception ''TypeError'') | Some ns \<Rightarrow> ret ns) s
      = (Inr y, s') \<longleftrightarrow> description = Some y \<and> s' = s"
  by (cases description) (auto simp: ret_def throw_def)

lemma connection_Inr:
  "(case connection of None \<Rightarrow> throw e | Some c \<Rightarrow> f c) s = (Inr y, s')
     \<longleftrightarrow> (\<exists>c. connection = Some c \<and> f c s = (Inr y, s'))"
  by (cases connection) (auto simp: throw_def)

lemma execute_query_body_success:
  "execute_query_body d q ps s = (Inr x, s') \<longleftrightarrow>
     (\<exists>rows. x = Some rows \<and> run_ok d q ps s = Some (rows, s'))"
proof
  assume "execute_query_body d q ps s = (Inr x, s')"
  then obtain c s1 s9 cur s2 u3 s3 u4 s4 results s5 description s6 names s7 where
    1: "pool_getconn d s = (Inr (Some c), s1)" and
    2: "conn_cursor d c s1 = (Inr cur, s2)" and
    3: "cursor_execute d cur timeout_statement None s2 = (Inr u3, s3)" and
    4: "cursor_execute d cur q (if ps = Some [] then None else ps) s3 = (Inr u4, s4)" and
    5: "cursor_fetchall d cur s4 = (Inr results, s5)" and
    6: "cursor_description d cur s5 = (Inr description, s6)" and
    7: "description = Some names" "s7 = s6" and
    8: "x = Some (map (dict_zip names) results)" and
    9: "cursor_close d cur s7 = (Inr (), s9)" and
    10: "pool_putconn d c s9 = (Inr (), s')"
    unfolding execute_query_body_def get_connection_def with_cursor_def params_choice
      io_bind_Inr connection_Inr try_finally_Inr try_except_reraise_Inr description_Inr ret_Inr
    by blast
  from 1 2 3 4 5 6 7 9 10 have "run_ok d q ps s = Some (map (dict_zip names) results, s')"
    unfolding run_ok_def by (simp add: returned_def)
  with 8 show "\<exists>rows. x = Some rows \<and> run_ok d q ps s = Some (rows, s')" by blast
next
  assume "\<exists>rows. x = Some rows \<and> run_ok d q ps s = Some (rows, s')"
  then obtain rows where x: "x = Some rows" and r: "run_ok d q ps s = Some (rows, s')" by blast
  from r obtain c s1 cur s2 u3 s3 u4 s4 results s5 names s6 u7 s7 u8 where
    1: "pool_getconn d s = (Inr (Some c), s1)" and
    2: "conn_cursor d c s1 = (Inr cur, s2)" and
    3: "cursor_execute d cur timeout_statement None s2 = (Inr u3, s3)" and
    4: "cursor_execute d cur q (if ps = Some [] then None else ps) s3 = (Inr u4, s4)" and
    5: "cursor_fetchall d cur s4 = (Inr results, s5)" and
    6: "cursor_description d cur s5 = (Inr (Some names), s6)" and
    7: "cursor_close d cur s6 = (Inr u7, s7)" and
    8: "pool_putconn d c s7 = (Inr u8, s')" and
    9: "rows = map (dict_zip names) results"
    unfolding run_ok_def
    by (auto simp: bind_eq_Some_conv returned_eq_Some split: prod.splits)
  from 1 2 3 4 5 6 7 8 9 x show "execute_query_body d q ps s = (Inr x, s')"
    unfolding execute_query_body_def get_connection_def with_cursor_def params_choice
    by (simp add: io_bind_def try_finally_def try_except_def ret_def)
qed

lemma execute_query_result:
  "execute_query d q ps s =
     (case execute_query_body d q ps s of
        (Inl e, s') \<Rightarrow> (Inr None, s')
      | (Inr x, s') \<Rightarrow> (Inr x, s'))"
  by (auto simp: execute_query_def try_except_def ret_def split: prod.splits sum.splits exn.splits)

lemma run_ok_None_body:
  "run_ok d q ps s = None \<Longrightarrow> \<exists>e s'. execute_query_body d q ps s = (Inl e, s')"
proof -
  assume n: "run_ok d q ps s = None"
  obtain r s' where b: "execute_query_body d q ps s = (r, s')" by (cases "execute_query_body d q ps s")
  show ?thesis
  proof (cases r)
    case (Inl e)
    with b show ?thesis by simp
  next
    case (Inr x)
    with b have "execute_query_body d q ps s = (Inr x, s')" by simp
    then have "\<exists>rows. x = Some rows \<and> run_ok d q ps s = Some (rows, s')"
      by (simp only: execute_query_body_success)
    with n show ?thesis by simp
  qed
qed

text \<open>
  Claim C9. \<open>execute_query\<close> never raises on a driver error: whatever call of the driver
  raises, with any statement and parameters, it returns the sentinel \<open>None\<close>; it returns
  a row sequence exactly in the run in which no call raises. The sentinel differs from
  the empty row sequence, which is only returned by a successful run that fetched no row.
\<close>

theorem execute_query_never_raises:
  "(\<forall>e. fst (execute_query d q ps s) \<noteq> Inl e)
   \<and> (run_ok d q ps s = None \<longrightarrow> fst (execute_query d q ps s) = Inr None)
   \<and> (\<forall>rows s'. run_ok d q ps s = Some (rows, s') \<longrightarrow>
         execute_query d q ps s = (Inr (Some rows), s'))
   \<and> (fst (execute_query d q ps s) = Inr (Some []) \<longrightarrow> (\<exists>s'. run_ok d q ps s = Some ([], s')))
   \<and> (Inr None :: exn + (string \<times> 'v) list list option) \<noteq> Inr (Some [])"
proof -
  have a: "\<forall>e. fst (execute_query d q ps s) \<noteq> Inl e"
    unfolding execute_query_result by (auto split: prod.splits sum.splits)
  have b: "run_ok d q ps s = None \<longrightarrow> fst (execute_query d q ps s) = Inr None"
    using run_ok_None_body [of d q ps s] unfolding execute_query_result by auto
  have c: "\<forall>rows s'. run_ok d q ps s = Some (rows, s') \<longrightarrow>
         execute_query d q ps s = (Inr (Some rows), s')"
  proof (intro allI impI)
    fix rows s'
    assume "run_ok d q ps s = Some (rows, s')"
    then have "execute_query_body d q ps s = (Inr (Some rows), s')"
      using execute_query_body_success [of d q ps s "Some rows" s'] by simp
    then show "execute_query d q ps s = (Inr (Some rows), s')"
      unfolding execute_query_result by simp
  qed
  have e: "fst (execute_query d q ps s) = Inr (Some []) \<longrightarrow> (\<exists>s'. run_ok d q ps s = Some ([], s'))"
  proof
    assume h: "fst (execute_query d q ps s) = Inr (Some [])"
    obtain r s' where bd: "execute_query_body d q ps s = (r, s')"
      by (cases "execute_query_body d q ps s")
    with h have "r = Inr (Some [])" unfolding execute_query_result by (cases r) auto
    with bd have "execute_query_body d q ps s = (Inr (Some []), s')" by simp
    then have "run_ok d q ps s = Some ([], s')"
      using execute_query_body_success [of d q ps s "Some []" s'] by simp
    then show "\<exists>s'. run_ok d q ps s = Some ([], s')" by (rule exI)
  qed
  from a b c e show ?thesis by simp
qed

theorem execute_query_never_raises_witness:
  "run_ok example_driver ''boom'' None [] = None
   \<and> fst (execute_query example_driver ''boom'' None []) = Inr None
   \<and> run_ok example_driver ''SELECT 1'' None [] = Some ([], [timeout_statement, ''SELECT 1''])
   \<and> execute_query example_driver ''SELECT 1'' None []
       = (Inr (Some []), [timeout_statement, ''SELECT 1''])"
proof -
  have a: "run_ok example_driver ''boom'' None [] = None"
    by (simp add: run_ok_def example_driver_def returned_def ret_def throw_def timeout_statement_def)
  have b: "run_ok example_driver ''SELECT 1'' None [] = Some ([], [timeout_statement, ''SELECT 1''])"
    by (simp add: run_ok_def example_driver_def returned_def ret_def throw_def timeout_statement_def)
  from execute_query_never_raises [of example_driver "''boom''" None "[]"]
       execute_query_never_raises [of example_driver "''SELECT 1''" None "[]"] a b
  show ?thesis by simp
qed

section \<open>The sanitization pipeline\<close>

lemma last_dropWhile: "dropWhile P xs \<noteq> [] \<Longrightarrow> last (dropWhile P xs) = last xs"
  by (induction xs) (auto split: if_splits)

lemma lstrip_decomp:
  assumes "m \<noteq> []" "\<not> P (hd m)"
  shows "\<exists>pre'. dropWhile P (pre @ m) = pre' @ m \<and> (pre' = [] \<or> (pre \<noteq> [] \<and> last pre' = last pre))"
proof (cases "\<forall>x \<in> set pre. P x")
  case True
  then have "dropWhile P (pre @ m) = dropWhile P m" by (simp add: dropWhile_append)
  also have "\<dots> = m" using assms by (cases m) auto
  finally have "dropWhile P (pre @ m) = [] @ m" by simp
  then show ?thesis by blast
next
  case False
  then have d: "dropWhile P (pre @ m) = dropWhile P pre @ m" by (auto simp: dropWhile_append)
  from False have ne: "dropWhile P pre \<noteq> []" by (simp add: dropWhile_eq_Nil_conv)
  then have "pre \<noteq> []" "last (dropWhile P pre) = last pre" by (auto simp: last_dropWhile)
  with d show ?thesis by blast
qed

lemma rstrip_decomp:
  assumes "m \<noteq> []" "\<not> P (last m)"
  shows "\<exists>post'. rev (dropWhile P (rev (m @ post))) = m @ post'"
proof -
  from assms have "rev m \<noteq> []" "\<not> P (hd (rev m))" by (simp_all add: hd_rev)
  then obtain pre' where "dropWhile P (rev post @ rev m) = pre' @ rev m"
    using lstrip_decomp [of "rev m" P "rev post"] by blast
  then have "rev (dropWhile P (rev (m @ post))) = m @ rev pre'" by simp
  then show ?thesis by blast
qed

lemma has_limit_clause_strip:
  assumes "has_limit_clause x"
  shows "has_limit_clause (strip x)"
proof -
  from assms obtain pre kw ws ds post where h: "x = pre @ kw @ ws @ ds @ post"
    "pre = [] \<or> \<not> is_word (last pre)"
    "ci_eq kw ''LIMIT''" "ws \<noteq> []" "\<forall>c \<in> set ws. is_space c" "ds \<noteq> []" "\<forall>c \<in> set ds. is_digit c"
    unfolding has_limit_clause_def by blast
  define m where "m = kw @ ws @ ds"
  from h(3) obtain c kw' where c: "kw = c # kw'" "to_lower c = to_lower CHR ''L''"
    using ci_eq_ConsD by blast
  have "is_letter CHR ''L''" by (simp add: is_letter_def)
  with c have "is_letter c" using to_lower_is_letter [of c "CHR ''L''"] by simp
  then have "\<not> is_space c" by (rule is_letter_not_space)
  with c have m1: "(m @ post) \<noteq> []" "\<not> is_space (hd (m @ post))" by (simp_all add: m_def)
  from h(6,7) have "is_digit (last ds)" by simp
  then have "\<not> is_space (last ds)" by (rule is_digit_not_space)
  with h(6) have m2: "\<not> is_space (last m)" by (simp add: m_def)
  from m1 obtain pre' where p: "dropWhile is_space (pre @ (m @ post)) = pre' @ (m @ post)"
    "pre' = [] \<or> (pre \<noteq> [] \<and> last pre' = last pre)"
    using lstrip_decomp [of "m @ post" is_space pre] by blast
  have m3: "pre' @ m \<noteq> []" "\<not> is_space (last (pre' @ m))" using m2 h(6) by (simp_all add: m_def)
  obtain post' where q: "rev (dropWhile is_space (rev ((pre' @ m) @ post))) = (pre' @ m) @ post'"
    using rstrip_decomp [of "pre' @ m" is_space post] m3 by blast
  have "strip x = pre' @ kw @ ws @ ds @ post'"
    using p(1) q unfolding strip_def h(1) m_def by simp
  moreover from p(2) h(2) have "pre' = [] \<or> \<not> is_word (last pre')" by auto
  ultimately show ?thesis using h(3-7) by (rule has_limit_clauseI)
qed

lemma rstrip_id:
  assumes "m \<noteq> []" "\<not> P (last m)"
  shows "rev (dropWhile P (rev (p @ m))) = p @ m"
proof -
  from assms have "rev (p @ m) = [] \<or> \<not> P (hd (rev (p @ m)))" by (simp add: hd_rev)
  then have "dropWhile P (rev (p @ m)) = rev (p @ m)" by (rule dropWhile_id)
  then show ?thesis by simp
qed

lemma strip_limit_100: "\<exists>p. strip (y @ '' LIMIT 100'') = p @ ''LIMIT 100''"
proof -
  define m where "m = ''LIMIT 100''"
  have 1: "m \<noteq> []" "\<not> is_space (hd m)" "\<not> is_space (last m)"
    by (simp_all add: m_def is_space_def)
  obtain p where p: "dropWhile is_space ((y @ '' '') @ m) = p @ m"
    using lstrip_decomp [of m is_space "y @ '' ''"] 1 by blast
  have "rev (dropWhile is_space (rev (p @ m))) = p @ m"
    using rstrip_id [of m is_space p] 1 by simp
  moreover have "y @ '' LIMIT 100'' = (y @ '' '') @ m" by (simp add: m_def)
  ultimately have "strip (y @ '' LIMIT 100'') = p @ m"
    unfolding strip_def using p by simp
  then show ?thesis unfolding m_def by blast
qed

lemma sanitize_sql_select_1:
  "sanitize_sql example_parse example_format ''SELECT 1'' = Some ''SELECT 1 LIMIT 100''"
  by code_simp

text \<open>
  Claim C1, as amended. If \<open>sanitize_sql\<close> accepts a text, the parser returned at least
  one statement for it, the first statement is classified SELECT, and no deny-listed
  keyword occurs as a whole word anywhere in the text. The number of statements is not
  checked and later statements are not classified.
\<close>

theorem sanitize_sql_accepts_select_first:
  "sanitize_sql parse format s = Some r \<Longrightarrow>
     (\<exists>statement rest. parse s = Inr (statement # rest) \<and> is_select_statement statement)
     \<and> \<not> contains_dangerous_keywords s
     \<and> (\<forall>k \<in> set deny_list. \<not> whole_word k s)"
proof -
  assume a: "sanitize_sql parse format s = Some r"
  then have 1: "\<exists>statement rest. parse s = Inr (statement # rest) \<and> is_select_statement statement"
    by (auto simp: sanitize_sql_def split: if_splits sum.splits list.splits)
  from a have 2: "\<not> contains_dangerous_keywords s"
    by (auto simp: sanitize_sql_def split: if_splits sum.splits list.splits)
  then have "\<forall>k \<in> set deny_list. \<not> whole_word k s"
    unfolding contains_dangerous_keywords_iff by blast
  with 1 2 show ?thesis by blast
qed

theorem sanitize_sql_accepts_select_first_witness:
  "sanitize_sql example_parse example_format ''SELECT 1'' = Some ''SELECT 1 LIMIT 100''
   \<and> (\<exists>statement rest. example_parse ''SELECT 1'' = Inr (statement # rest)
         \<and> is_select_statement statement)
   \<and> \<not> contains_dangerous_keywords ''SELECT 1''"
  using sanitize_sql_accepts_select_first [OF sanitize_sql_select_1] sanitize_sql_select_1
  by blast

text \<open>
  Against claim C1 as stated: a text of two SELECT statements separated by a semicolon
  is accepted, although it does not parse as a single statement.
\<close>

theorem sanitize_sql_accepts_two_statements:
  "sanitize_sql example_parse example_format ''SELECT 1; SELECT 2''
     = Some (''SELECT 1;'' @ [CHR 0x0A, CHR 0x0A] @ ''SELECT 2 LIMIT 100'')
   \<and> \<not> parses_as_single_select example_parse ''SELECT 1; SELECT 2''"
  by code_simp

text \<open>
  Claim C2, as amended. Every accepted output contains a \<open>LIMIT <n>\<close> clause. When the
  formatted text already has one, the output is that text trimmed, with the clause and
  its number as they were, whatever the number; otherwise the output ends with
  \<open>LIMIT 100\<close>.
\<close>

theorem sanitize_sql_output_has_limit:
  "sanitize_sql parse format s = Some r \<Longrightarrow>
     has_limit_clause r
     \<and> (\<exists>formatted. format s = Inr formatted
           \<and> (has_limit_clause formatted \<longrightarrow> r = strip formatted)
           \<and> (\<not> has_limit_clause formatted \<longrightarrow> (\<exists>p. r = p @ ''LIMIT 100'')))"
proof -
  assume a: "sanitize_sql parse format s = Some r"
  then obtain formatted where f: "format s = Inr formatted"
    "r = strip (ensure_limit_clause formatted)"
    by (auto simp: sanitize_sql_def split: if_splits sum.splits list.splits)
  have "has_limit_clause (ensure_limit_clause formatted)"
    by (simp add: ensure_limit_clause_def limit_search_iff has_limit_appended)
  then have 1: "has_limit_clause r" unfolding f(2) by (rule has_limit_clause_strip)
  have 2: "has_limit_clause formatted \<longrightarrow> r = strip formatted"
    unfolding f(2) by (simp add: ensure_limit_clause_def limit_search_iff)
  have 3: "\<not> has_limit_clause formatted \<longrightarrow> (\<exists>p. r = p @ ''LIMIT 100'')"
    unfolding f(2) using strip_limit_100 by (simp add: ensure_limit_clause_def limit_search_iff)
  from f(1) 1 2 3 show ?thesis by blast
qed

theorem sanitize_sql_output_has_limit_witness:
  "sanitize_sql example_parse example_format ''SELECT 1'' = Some ''SELECT 1 LIMIT 100''
   \<and> has_limit_clause ''SELECT 1 LIMIT 100''"
  using sanitize_sql_output_has_limit [OF sanitize_sql_select_1] sanitize_sql_select_1
  by blast

text \<open>
  Against claim C2 as stated: an accepted output that carries a LIMIT clause with the
  value 10000.
\<close>

theorem sanitize_sql_keeps_large_limit:
  "sanitize_sql example_parse example_format ''SELECT 1 LIMIT 10000''
     = Some (''SELECT 1'' @ [CHR 0x0A] @ ''LIMIT 10000'')
   \<and> limit_clause_value (''SELECT 1'' @ [CHR 0x0A] @ ''LIMIT 10000'') 10000
   \<and> (10000 :: nat) > 100"
proof -
  have a: "sanitize_sql example_parse example_format ''SELECT 1 LIMIT 10000''
     = Some (''SELECT 1'' @ [CHR 0x0A] @ ''LIMIT 10000'')" by code_simp
  have d: "decimal ''10000'' = 10000" by (simp add: decimal_def)
  have "''SELECT 1'' @ [CHR 0x0A] @ ''LIMIT 10000''
          = (''SELECT 1'' @ [CHR 0x0A]) @ ''LIMIT'' @ '' '' @ ''10000'' @ []
        \<and> ((''SELECT 1'' @ [CHR 0x0A]) = [] \<or> \<not> is_word (last (''SELECT 1'' @ [CHR 0x0A])))
        \<and> ci_eq ''LIMIT'' ''LIMIT''
        \<and> '' '' \<noteq> [] \<and> (\<forall>c \<in> set '' ''. is_space c)
        \<and> ''10000'' \<noteq> [] \<and> (\<forall>c \<in> set ''10000''. is_digit c)
        \<and> ([] = [] \<or> \<not> is_digit (hd []))
        \<and> decimal ''10000'' = 10000"
    using d by (simp add: is_word_def is_space_def is_digit_def)
  then have "limit_clause_value (''SELECT 1'' @ [CHR 0x0A] @ ''LIMIT 10000'') 10000"
    unfolding limit_clause_value_def by blast
  with a show ?thesis by simp
qed

end
